theory Spec2Isabelle
  imports Complex_Main "HOL-Library.Word" "HOL-Library.AList"
begin

section \<open>The pixel transform of \<open>processImage\<close> (server.js, lines 62 to 71)\<close>

text \<open>
  \<open>ctx.getImageData\<close> hands the loop an \<open>ImageData\<close>: a width, a height and
  \<open>data\<close>, a \<open>Uint8ClampedArray\<close> of bytes in the order R, G, B, A.
\<close>

type_synonym byte = "8 word"

record PixelBuffer =
  width :: nat
  height :: nat
  data :: "byte list"

text \<open>
  A JavaScript number in the loop is either a value or \<open>NaN\<close>. The values that occur are
  sums of at most three bytes and their quotient by 3; they are kept exact as rationals.
  The binary64 quotient of an integer up to 765 by 3 differs from the exact quotient by
  less than a millionth, and the exact quotient is at least 1/6 away from every
  half-integer, so the conversion below picks the same byte for both.
  \<open>None\<close> is \<open>NaN\<close>.
\<close>

type_synonym number = "rat option"

text \<open>
  \<open>data[i]\<close>: a byte as a number; \<open>undefined\<close> beyond the end of the array, which the
  addition turns into \<open>NaN\<close>.
\<close>

definition elem :: "byte list \<Rightarrow> nat \<Rightarrow> number" where
  "elem d i = (if i < length d then Some (of_nat (unat (d ! i))) else None)"

definition js_add :: "number \<Rightarrow> number \<Rightarrow> number" where
  "js_add a b = (case a of None \<Rightarrow> None | Some x \<Rightarrow> (case b of None \<Rightarrow> None | Some y \<Rightarrow> Some (x + y)))"

definition js_div :: "number \<Rightarrow> rat \<Rightarrow> number" where
  "js_div a k = (case a of None \<Rightarrow> None | Some x \<Rightarrow> Some (x / k))"

text \<open>
  The conversion a \<open>Uint8ClampedArray\<close> applies to a stored number (ECMAScript
  \<open>ToUint8Clamp\<close>): \<open>NaN\<close> becomes 0, the value is clamped to 0..255 and rounded to the
  nearest integer, a tie going to the even neighbour.
\<close>

definition ToUint8Clamp :: "number \<Rightarrow> byte" where
  "ToUint8Clamp v =
     (case v of
        None \<Rightarrow> 0
      | Some x \<Rightarrow>
          if x \<le> 0 then 0
          else if 255 \<le> x then 255
          else let f = \<lfloor>x\<rfloor> in
            if of_int f + 1 / 2 < x then word_of_int (f + 1)
            else if x < of_int f + 1 / 2 then word_of_int f
            else if even f then word_of_int f
            else word_of_int (f + 1))"

text \<open>
  \<open>data[i] = v\<close>: a write beyond the end of a typed array is dropped, as
  \<open>list_update\<close> does.
\<close>

definition store :: "byte list \<Rightarrow> nat \<Rightarrow> number \<Rightarrow> byte list" where
  "store d i v = d[i := ToUint8Clamp v]"

text \<open>Line 67: \<open>const avg = (data[i] + data[i + 1] + data[i + 2]) / 3\<close>.\<close>

definition pixel_avg :: "byte list \<Rightarrow> nat \<Rightarrow> number" where
  "pixel_avg d i = js_div (js_add (js_add (elem d i) (elem d (i + 1))) (elem d (i + 2))) 3"

text \<open>Lines 67 to 70, one pass of the loop body: the average is read first, then written thrice.\<close>

definition paint :: "byte list \<Rightarrow> nat \<Rightarrow> byte list" where
  "paint d i = (let avg = pixel_avg d i in store (store (store d i avg) (i + 1) avg) (i + 2) avg)"

text \<open>Line 66: \<open>for (let i = 0; i < data.length; i += 4)\<close>, entered at index \<open>i\<close>.\<close>

function grayscale_loop :: "nat \<Rightarrow> byte list \<Rightarrow> byte list" where
  "grayscale_loop i d = (if i < length d then grayscale_loop (i + 4) (paint d i) else d)"
  by pat_completeness auto
termination
  by (relation "measure (\<lambda>(i, d). length d - i)") (auto simp: paint_def store_def Let_def)

declare grayscale_loop.simps [simp del]

text \<open>The transform on the image data: the loop runs from index 0 and mutates \<open>data\<close> only.\<close>

definition grayscale :: "PixelBuffer \<Rightarrow> PixelBuffer" where
  "grayscale B = B\<lparr>data := grayscale_loop 0 (data B)\<rparr>"

text \<open>The invariant of a pixel buffer: positive dimensions and four bytes per pixel.\<close>

definition pb_inv :: "PixelBuffer \<Rightarrow> bool" where
  "pb_inv B = (0 < width B \<and> 0 < height B \<and> length (data B) = width B * height B * 4)"

text \<open>
  What the finished loop leaves at index \<open>j\<close> when it was entered at \<open>i\<close>: bytes before
  \<open>i\<close> and alpha bytes are the old ones, a colour byte is the clamped average of its pixel.
\<close>

definition gray_at :: "byte list \<Rightarrow> nat \<Rightarrow> nat \<Rightarrow> byte" where
  "gray_at d i j =
     (if j < i \<or> (j - i) mod 4 = 3 then d ! j
      else ToUint8Clamp (pixel_avg d (j - (j - i) mod 4)))"

section \<open>Strings, regular expressions and paths\<close>

type_synonym path = string
type_synonym bytes = "byte list"

text \<open>\<open>String.prototype.toLowerCase\<close> on the ASCII letters; every other character is kept.\<close>

definition toLowerCase_char :: "char \<Rightarrow> char" where
  "toLowerCase_char c =
     (case map_of (zip ''ABCDEFGHIJKLMNOPQRSTUVWXYZ'' ''abcdefghijklmnopqrstuvwxyz'') c of
        None \<Rightarrow> c
      | Some l \<Rightarrow> l)"

definition toLowerCase :: "string \<Rightarrow> string" where
  "toLowerCase s = map toLowerCase_char s"

text \<open>\<open>startsWith s p\<close>: the literal \<open>p\<close> matches at the start of \<open>s\<close>.\<close>

fun startsWith :: "string \<Rightarrow> string \<Rightarrow> bool" where
  "startsWith s [] = True"
| "startsWith [] (p # ps) = False"
| "startsWith (c # s) (p # ps) = (c = p \<and> startsWith s ps)"

text \<open>
  \<open>RegExp.prototype.test\<close> for a literal without anchors: the search tries every start
  position of the subject.
\<close>

fun str_includes :: "string \<Rightarrow> string \<Rightarrow> bool" where
  "str_includes [] p = (p = [])"
| "str_includes (c # s) p = (startsWith (c # s) p \<or> str_includes s p)"

text \<open>A literal followed by the anchor \<open>$\<close>: it must match at the end of the subject.\<close>

definition endsWith :: "string \<Rightarrow> string \<Rightarrow> bool" where
  "endsWith s p = startsWith (rev s) (rev p)"

text \<open>Line 33: \<open>const allowedTypes = /jpeg|jpg|png|gif/\<close>, and its \<open>test\<close>.\<close>

definition allowedTypes_test :: "string \<Rightarrow> bool" where
  "allowedTypes_test s =
     (str_includes s ''jpeg'' \<or> str_includes s ''jpg'' \<or> str_includes s ''png'' \<or> str_includes s ''gif'')"

text \<open>Line 142: \<open>/\.(jpg|jpeg|png|gif)$/i.test(file)\<close>.\<close>

definition raster_test :: "string \<Rightarrow> bool" where
  "raster_test name =
     (let l = toLowerCase name
      in endsWith l ''.jpg'' \<or> endsWith l ''.jpeg'' \<or> endsWith l ''.png'' \<or> endsWith l ''.gif'')"

text \<open>
  \<open>String.prototype.split\<close> with a one-character separator: an empty string between two
  adjacent separators, and one element for a subject without separator.
\<close>

fun split_on :: "char \<Rightarrow> string \<Rightarrow> string list" where
  "split_on c [] = [[]]"
| "split_on c (x # xs) =
     (if x = c then [] # split_on c xs
      else (case split_on c xs of [] \<Rightarrow> [[x]] | s # ss \<Rightarrow> (x # s) # ss))"

fun join_with :: "char \<Rightarrow> string list \<Rightarrow> string" where
  "join_with c [] = []"
| "join_with c [s] = s"
| "join_with c (s # t # ss) = s @ c # join_with c (t # ss)"

text \<open>
  Node's \<open>path.posix\<close>. \<open>normalizeString\<close> walks the segments of a path: an empty
  segment and \<open>.\<close> are skipped, \<open>..\<close> removes the segment before it unless there is none
  or it is \<open>..\<close> itself, in which case a relative path keeps the \<open>..\<close>.
\<close>

fun normalize_segments :: "bool \<Rightarrow> string list \<Rightarrow> string list \<Rightarrow> string list" where
  "normalize_segments allowAboveRoot res [] = res"
| "normalize_segments allowAboveRoot res (seg # segs) =
     (if seg = [] \<or> seg = ''.'' then normalize_segments allowAboveRoot res segs
      else if seg = ''..'' then
        (if res \<noteq> [] \<and> last res \<noteq> ''..'' then normalize_segments allowAboveRoot (butlast res) segs
         else if allowAboveRoot then normalize_segments allowAboveRoot (res @ [''..'']) segs
         else normalize_segments allowAboveRoot res segs)
      else normalize_segments allowAboveRoot (res @ [seg]) segs)"

definition normalizeString :: "string \<Rightarrow> bool \<Rightarrow> string" where
  "normalizeString p allowAboveRoot =
     join_with CHR ''/'' (normalize_segments allowAboveRoot [] (split_on CHR ''/'' p))"

definition path_normalize :: "path \<Rightarrow> path" where
  "path_normalize p =
     (if p = [] then ''.''
      else let isAbsolute = (hd p = CHR ''/'');
               trailingSeparator = (last p = CHR ''/'');
               q = normalizeString p (\<not> isAbsolute)
           in if q = [] then (if isAbsolute then ''/'' else if trailingSeparator then ''./'' else ''.'')
              else let q' = (if trailingSeparator then q @ ''/'' else q)
                   in if isAbsolute then CHR ''/'' # q' else q')"

text \<open>\<open>path.join\<close>: the non-empty arguments joined by \<open>/\<close>, then normalised.\<close>

definition path_join :: "string list \<Rightarrow> path" where
  "path_join args =
     (let joined = join_with CHR ''/'' (filter (\<lambda>a. a \<noteq> []) args)
      in if joined = [] then ''.'' else path_normalize joined)"

text \<open>
  \<open>path.extname\<close>: the last path component without trailing separators, and of it the
  part from the last dot on; empty when there is no dot, when the dot is the first
  character of the component, and for the component \<open>..\<close>.
\<close>

definition path_basename_part :: "path \<Rightarrow> string" where
  "path_basename_part p =
     rev (takeWhile (\<lambda>c. c \<noteq> CHR ''/'') (dropWhile (\<lambda>c. c = CHR ''/'') (rev p)))"

definition path_extname :: "path \<Rightarrow> string" where
  "path_extname p =
     (let base = path_basename_part p;
          ext = CHR ''.'' # rev (takeWhile (\<lambda>c. c \<noteq> CHR ''.'') (rev base))
      in if CHR ''.'' \<notin> set base then []
         else if length ext = length base then []
         else if base = ''..'' then []
         else ext)"

text \<open>
  The decimal digits of a number, as the concatenation \<open>Date.now() + '-' + ...\<close> of
  line 26 produces them.
\<close>

definition digit_char :: "nat \<Rightarrow> char" where
  "digit_char n = ''0123456789'' ! n"

function string_of_nat :: "nat \<Rightarrow> string" where
  "string_of_nat n = (if n < 10 then [digit_char n] else string_of_nat (n div 10) @ [digit_char (n mod 10)])"
  by pat_completeness auto
termination
  by (relation "measure id") auto

declare string_of_nat.simps [simp del]

section \<open>The file system and the collaborators of the server\<close>

text \<open>
  The files of the working directory, by their normalised relative path. A file has its
  bytes and the time of its creation (\<open>fs.Stats.birthtime\<close>). Directories are not
  entries of their own: a directory exists where a file lies below it, the directory
  \<open>outputs\<close> always exists (lines 49 to 52 create it), and the environment names the
  directories that hold no file.
\<close>

record fs_file =
  content :: bytes
  birthtime :: nat

text \<open>The calls the image pipeline makes on its collaborators, in the order it makes them.\<close>

datatype event = LoadImage path | WriteFile path | Unlink path

record world =
  files :: "(path \<times> fs_file) list"
  events :: "event list"

text \<open>
  How a call of \<open>fs.writeFileSync\<close> can raise: before the file is opened (nothing has
  changed), or while the bytes are written, after the file was opened with flag \<open>w\<close>,
  which creates or truncates it; then only the first \<open>n\<close> bytes have reached the file.
\<close>

datatype write_fault = OpenFails string | WriteFails nat string

text \<open>
  What the server does not decide itself. \<open>decode\<close> stands for \<open>loadImage\<close> on the
  bytes of a file followed by \<open>drawImage\<close> and \<open>getImageData\<close> (lines 57 to 63),
  \<open>encode\<close> for \<open>putImageData\<close> and \<open>canvas.toBuffer('image/png')\<close> (lines 73
  and 74); both may raise, with a message. The faults say which file system calls raise,
  and \<open>clock\<close> is the time of the request in milliseconds (\<open>Date.now()\<close>).
  \<open>dirs\<close> are the directories that hold no file, \<open>dir_birthtime\<close> is the birth time
  of a directory, and \<open>cwd\<close> is the absolute path of the working directory.
  \<open>send_legacy\<close> tells which \<open>send\<close> library serves \<open>res.download\<close>: before
  its version 1 (Express 4) it refuses a path whose last segment begins with a dot, from
  version 1 on (Express 5) a path with any such segment. \<open>send_fault\<close> is the
  message of the error with which \<open>send\<close> gives up on a path that it cannot stat
  or open.
\<close>

record env =
  decode :: "bytes \<Rightarrow> string + PixelBuffer"
  encode :: "PixelBuffer \<Rightarrow> string + bytes"
  write_fault :: "path \<Rightarrow> write_fault option"
  unlink_fault :: "path \<Rightarrow> string option"
  readdir_fault :: "path \<Rightarrow> string option"
  stat_fault :: "path \<Rightarrow> string option"
  send_fault :: "path \<Rightarrow> string option"
  clock :: nat
  dirs :: "path list"
  dir_birthtime :: "path \<Rightarrow> nat"
  cwd :: path
  send_legacy :: bool

definition log_event :: "world \<Rightarrow> event \<Rightarrow> world" where
  "log_event w e = w\<lparr>events := events w @ [e]\<rparr>"

text \<open>
  \<open>fs.writeFileSync(p, buf)\<close>: the file at \<open>p\<close> is created or replaced; a file that
  existed keeps its birth time. The second component is the error raised, if any.
\<close>

definition writeFileSync :: "env \<Rightarrow> world \<Rightarrow> path \<Rightarrow> bytes \<Rightarrow> world \<times> string option" where
  "writeFileSync env w p buf =
     (let w1 = log_event w (WriteFile p);
          born = (case map_of (files w) p of None \<Rightarrow> clock env | Some f \<Rightarrow> birthtime f)
      in case write_fault env p of
           None \<Rightarrow>
             (w1\<lparr>files := AList.update p \<lparr>content = buf, birthtime = born\<rparr> (files w)\<rparr>, None)
         | Some (OpenFails e) \<Rightarrow> (w1, Some e)
         | Some (WriteFails n e) \<Rightarrow>
             (w1\<lparr>files := AList.update p \<lparr>content = take n buf, birthtime = born\<rparr> (files w)\<rparr>,
              Some e))"

text \<open>\<open>fs.unlinkSync(p)\<close>: raises for a file that does not exist, removes it otherwise.\<close>

definition unlinkSync :: "env \<Rightarrow> world \<Rightarrow> path \<Rightarrow> world \<times> string option" where
  "unlinkSync env w p =
     (let w1 = log_event w (Unlink p)
      in case unlink_fault env p of
           Some e \<Rightarrow> (w1, Some e)
         | None \<Rightarrow>
             if map_of (files w) p = None then (w1, Some ''ENOENT'')
             else (w1\<lparr>files := AList.delete p (files w)\<rparr>, None))"

text \<open>
  The paths that exist: the files, and the directories that hold no file. A path is a
  directory when it is the working directory or lies above it, when it is \<open>outputs\<close>,
  when the environment names it, or when a path that exists lies below it.
\<close>

definition all_paths :: "env \<Rightarrow> world \<Rightarrow> path list" where
  "all_paths env w = map fst (files w) @ dirs env"

definition is_dir :: "env \<Rightarrow> world \<Rightarrow> path \<Rightarrow> bool" where
  "is_dir env w p =
     (p = ''.'' \<or> (p \<noteq> [] \<and> list_all (\<lambda>s. s = ''..'') (split_on CHR ''/'' p)) \<or>
      p = ''outputs'' \<or> p \<in> set (dirs env) \<or>
      list_ex (\<lambda>q. startsWith q (p @ ''/'')) (all_paths env w))"

text \<open>
  \<open>fs.existsSync(p)\<close>: a file or a directory is there; with a trailing separator, a
  directory.
\<close>

definition existsSync :: "env \<Rightarrow> world \<Rightarrow> path \<Rightarrow> bool" where
  "existsSync env w p =
     (if p \<noteq> [] \<and> last p = CHR ''/'' then is_dir env w (butlast p)
      else map_of (files w) p \<noteq> None \<or> is_dir env w p)"

text \<open>
  \<open>fs.readdirSync(dir)\<close>: the names of the entries directly in \<open>dir\<close>, files and
  sub-directories, each name once. \<open>entry_name dir q\<close> is the name of the entry of
  \<open>dir\<close> that \<open>q\<close> is or lies below.
\<close>

definition entry_name :: "path \<Rightarrow> path \<Rightarrow> string list" where
  "entry_name dir q =
     (if startsWith q (dir @ ''/'') then
        (let n = takeWhile (\<lambda>c. c \<noteq> CHR ''/'') (drop (length dir + 1) q)
         in if n \<noteq> [] then [n] else [])
      else [])"

definition readdirSync :: "env \<Rightarrow> world \<Rightarrow> path \<Rightarrow> string + string list" where
  "readdirSync env w dir =
     (case readdir_fault env dir of
        Some e \<Rightarrow> Inl e
      | None \<Rightarrow> Inr (remdups (concat (map (entry_name dir) (all_paths env w)))))"

text \<open>
  \<open>fs.statSync(p).birthtime\<close>, the one field of the result that the server reads. The
  call raises when the environment says so and for a path that does not exist.
\<close>

definition statSync :: "env \<Rightarrow> world \<Rightarrow> path \<Rightarrow> string + nat" where
  "statSync env w p =
     (case stat_fault env p of
        Some e \<Rightarrow> Inl e
      | None \<Rightarrow>
          (case map_of (files w) p of
             Some f \<Rightarrow> Inr (birthtime f)
           | None \<Rightarrow> if is_dir env w p then Inr (dir_birthtime env p) else Inl ''ENOENT''))"

text \<open>
  \<open>path.resolve(p)\<close>: the absolute path of \<open>p\<close>, without \<open>.\<close> and \<open>..\<close> segments and
  without trailing separator.
\<close>

definition path_resolve :: "env \<Rightarrow> path \<Rightarrow> path" where
  "path_resolve env p =
     (let full = (if p \<noteq> [] \<and> hd p = CHR ''/'' then p else cwd env @ ''/'' @ p)
      in CHR ''/'' # normalizeString full False)"

text \<open>
  The dotfile test of \<open>send\<close> on the segments of the resolved path, with its default
  options: \<open>containsDotFile\<close> looks for a segment of more than one character that
  begins with a dot; the legacy rule then lets the path pass unless its last segment
  begins with a dot.
\<close>

definition hidden_segment :: "string \<Rightarrow> bool" where
  "hidden_segment s = (1 < length s \<and> hd s = CHR ''.'')"

definition send_refuses :: "env \<Rightarrow> path \<Rightarrow> bool" where
  "send_refuses env p =
     (let parts = split_on CHR ''/'' (path_resolve env p)
      in list_ex hidden_segment parts \<and>
         (if send_legacy env then last parts \<noteq> [] \<and> hd (last parts) = CHR ''.'' else True))"

section \<open>The server: upload filter, pipeline and routes\<close>

definition outputDir :: path where
  "outputDir = ''outputs''"

text \<open>The object \<open>processImage\<close> returns: \<open>{success: true, message}\<close> or \<open>{success: false, error}\<close>.\<close>

datatype result = Success string | Failure string

text \<open>Line 57, \<open>loadImage(imagePath)\<close>, with the canvas calls up to line 63.\<close>

definition loadImage :: "env \<Rightarrow> world \<Rightarrow> path \<Rightarrow> string + PixelBuffer" where
  "loadImage env w imagePath =
     (case map_of (files w) imagePath of
        None \<Rightarrow> Inl ''ENOENT''
      | Some f \<Rightarrow> decode env (content f))"

text \<open>
  Lines 55 to 81. Whatever is raised inside the \<open>try\<close> block ends in the \<open>catch\<close> of
  line 78 and is returned as a failure with its message.
\<close>

definition processImage :: "env \<Rightarrow> world \<Rightarrow> path \<Rightarrow> path \<Rightarrow> world \<times> result" where
  "processImage env w imagePath outputPath =
     (let w1 = log_event w (LoadImage imagePath)
      in case loadImage env w imagePath of
           Inl err \<Rightarrow> (w1, Failure err)
         | Inr imageData \<Rightarrow>
             (case encode env (grayscale imageData) of
                Inl err \<Rightarrow> (w1, Failure err)
              | Inr buffer \<Rightarrow>
                  (case writeFileSync env w1 outputPath buffer of
                     (w2, Some err) \<Rightarrow> (w2, Failure err)
                   | (w2, None) \<Rightarrow> (w2, Success ''Image processed successfully''))))"

text \<open>
  The file of a multipart request as the upload filter sees it, and \<open>req.file\<close> as the
  route sees it once the disk storage has staged it.
\<close>

record incoming =
  originalname :: string
  mimetype :: string
  payload :: bytes

record multer_file = incoming +
  path :: path
  filename :: string

text \<open>An element of the \<open>images\<close> array of line 143: \<open>{filename, url, created}\<close>.\<close>

record image_info =
  img_filename :: string
  img_url :: string
  img_created :: nat

text \<open>
  What a route answers: the success body of the processing route (\<open>downloadUrl\<close>,
  \<open>filename\<close>), the list of images, a download of a path with its bytes, or a status
  with an error message. With \<open>NotHandled\<close> the route has passed the request on
  (\<open>next()\<close>) and no other route takes it: Express answers 404 by itself.
\<close>

datatype reply =
    ProcessedReply string string
  | ImagesReply "image_info list"
  | DownloadReply path bytes
  | ErrorReply nat string
  | NotHandled

text \<open>Lines 32 to 42: the callback gets \<open>true\<close> or an error.\<close>

definition fileFilter :: "'a incoming_scheme \<Rightarrow> string + bool" where
  "fileFilter file =
     (let extname = allowedTypes_test (toLowerCase (path_extname (originalname file)));
          mimetype = allowedTypes_test (mimetype file)
      in if mimetype \<and> extname then Inr True else Inl ''Only image files are allowed!'')"

text \<open>Line 26: \<open>Date.now() + '-' + file.originalname\<close>.\<close>

definition multer_filename :: "nat \<Rightarrow> string \<Rightarrow> string" where
  "multer_filename now name = string_of_nat now @ ''-'' @ name"

text \<open>
  The disk storage of lines 17 to 28: the file is written to the directory \<open>uploads\<close>
  under the name of line 26, and \<open>req.file\<close> gets its \<open>path\<close> and \<open>filename\<close>.
\<close>

definition diskStorage :: "env \<Rightarrow> world \<Rightarrow> incoming \<Rightarrow> world \<times> multer_file" where
  "diskStorage env w file =
     (let name = multer_filename (clock env) (originalname file);
          p = path_join [''uploads'', name];
          staged = \<lparr>content = payload file, birthtime = clock env\<rparr>
      in (w\<lparr>files := AList.update p staged (files w)\<rparr>,
          \<lparr>originalname = originalname file, mimetype = mimetype file,
            payload = payload file, path = p, filename = name\<rparr>))"

text \<open>
  \<open>upload.single('image')\<close> with the configuration of lines 30 to 46. A request without
  file goes on with \<open>req.file\<close> undefined. An error of the filter, and a file above the
  size limit, reach the error handler of lines 184 to 197, which answers 500 with the
  message, or 400 for the size limit. An accepted file is staged.
\<close>

definition upload_single :: "env \<Rightarrow> world \<Rightarrow> incoming option \<Rightarrow> world \<times> (reply + multer_file option)" where
  "upload_single env w req =
     (case req of
        None \<Rightarrow> (w, Inr None)
      | Some file \<Rightarrow>
          (case fileFilter file of
             Inl err \<Rightarrow> (w, Inl (ErrorReply 500 err))
           | Inr _ \<Rightarrow>
               if 10 * 1024 * 1024 < length (payload file)
               then (w, Inl (ErrorReply 400 ''File too large. Maximum size is 10MB''))
               else (case diskStorage env w file of (w1, staged) \<Rightarrow> (w1, Inr (Some staged)))))"

text \<open>Line 105: \<open>`processed-${req.file.filename.split('.')[0]}.png`\<close>.\<close>

definition outputFilename :: "string \<Rightarrow> string" where
  "outputFilename name = ''processed-'' @ hd (split_on CHR ''.'' name) @ ''.png''"

text \<open>
  Lines 95 to 135, the route after the upload middleware. An error raised by
  \<open>fs.unlinkSync\<close> ends in the \<open>catch\<close> of line 128.
\<close>

definition process_image_handler :: "env \<Rightarrow> world \<Rightarrow> multer_file option \<Rightarrow> world \<times> reply" where
  "process_image_handler env w req_file =
     (case req_file of
        None \<Rightarrow> (w, ErrorReply 400 ''No image file provided'')
      | Some file \<Rightarrow>
          (let inputPath = path file;
               outputPath = path_join [outputDir, outputFilename (filename file)]
           in case processImage env w inputPath outputPath of
                (w1, Success msg) \<Rightarrow>
                  (case unlinkSync env w1 inputPath of
                     (w2, Some err) \<Rightarrow>
                       (w2, ErrorReply 500 ''Internal server error during image processing'')
                   | (w2, None) \<Rightarrow>
                       (w2, ProcessedReply (''/outputs/'' @ outputFilename (filename file))
                              (outputFilename (filename file))))
              | (w1, Failure err) \<Rightarrow> (w1, ErrorReply 500 err)))"

text \<open>The route \<open>POST /api/process-image\<close> as a whole: the middleware, then the handler.\<close>

definition post_process_image :: "env \<Rightarrow> world \<Rightarrow> incoming option \<Rightarrow> world \<times> reply" where
  "post_process_image env w req =
     (case upload_single env w req of
        (w1, Inl err) \<Rightarrow> (w1, err)
      | (w1, Inr req_file) \<Rightarrow> process_image_handler env w1 req_file)"

text \<open>
  Lines 143 to 147, the \<open>map\<close> over the filtered names; \<open>None\<close> when a
  \<open>fs.statSync\<close> raises.
\<close>

fun image_infos :: "env \<Rightarrow> world \<Rightarrow> string list \<Rightarrow> image_info list option" where
  "image_infos env w [] = Some []"
| "image_infos env w (name # rest) =
     (case statSync env w (path_join [outputDir, name]) of
        Inl err \<Rightarrow> None
      | Inr born \<Rightarrow>
          (case image_infos env w rest of
             None \<Rightarrow> None
           | Some infos \<Rightarrow>
               Some (\<lparr>img_filename = name, img_url = ''/outputs/'' @ name,
                      img_created = born\<rparr> # infos)))"

text \<open>
  Lines 138 to 159, the route \<open>GET /api/images\<close>. Whatever raises inside the \<open>try\<close>,
  \<open>fs.readdirSync\<close> or a \<open>fs.statSync\<close>, ends in the \<open>catch\<close> of line 153.
\<close>

definition get_images :: "env \<Rightarrow> world \<Rightarrow> reply" where
  "get_images env w =
     (case readdirSync env w outputDir of
        Inl err \<Rightarrow> ErrorReply 500 ''Error reading image directory''
      | Inr names \<Rightarrow>
          (case image_infos env w (filter raster_test names) of
             None \<Rightarrow> ErrorReply 500 ''Error reading image directory''
           | Some imageFiles \<Rightarrow> ImagesReply imageFiles))"

text \<open>
  \<open>res.download(filePath)\<close> without callback, through \<open>res.sendFile\<close> and \<open>send\<close>
  on the resolved path. A path that \<open>send\<close> refuses as a dotfile gives the error
  \<open>Not Found\<close>, which \<open>res.sendFile\<close> passes to the error handler of lines 184 to
  197: it answers 500 with the message; so it does with the error of a path that
  \<open>send\<close> cannot stat or open. For a directory \<open>res.sendFile\<close> calls \<open>next()\<close>
  without error. Otherwise the bytes of the file are sent.
\<close>

definition res_download :: "env \<Rightarrow> world \<Rightarrow> path \<Rightarrow> reply" where
  "res_download env w filePath =
     (if send_refuses env filePath then ErrorReply 500 ''Not Found''
      else (case send_fault env filePath of
              Some e \<Rightarrow> ErrorReply 500 e
            | None \<Rightarrow>
                (case map_of (files w) filePath of
                   Some f \<Rightarrow> DownloadReply filePath (content f)
                 | None \<Rightarrow> NotHandled)))"

text \<open>Lines 162 to 181, the route \<open>GET /api/download/:filename\<close>.\<close>

definition get_download :: "env \<Rightarrow> world \<Rightarrow> string \<Rightarrow> reply" where
  "get_download env w name =
     (let filePath = path_join [outputDir, name]
      in if existsSync env w filePath then res_download env w filePath
         else ErrorReply 404 ''File not found'')"

section \<open>Notions the claims are stated with\<close>

text \<open>A single path segment: not empty, not \<open>.\<close> or \<open>..\<close>, and without separator.\<close>

definition plain_name :: "string \<Rightarrow> bool" where
  "plain_name n = (n \<noteq> [] \<and> n \<noteq> ''.'' \<and> n \<noteq> ''..'' \<and> CHR ''/'' \<notin> set n)"

text \<open>The store has an entry of this name: a file directly in the directory \<open>outputs\<close>.\<close>

definition in_store :: "world \<Rightarrow> string \<Rightarrow> bool" where
  "in_store w n = (n \<noteq> [] \<and> CHR ''/'' \<notin> set n \<and> map_of (files w) (''outputs/'' @ n) \<noteq> None)"

text \<open>
  The name ends in a dot and one of the accepted raster extensions, in any mix of upper
  and lower case.
\<close>

definition has_raster_extension :: "string \<Rightarrow> bool" where
  "has_raster_extension n =
     (\<exists>stem ext. n = stem @ ''.'' @ ext \<and> toLowerCase ext \<in> {''jpg'', ''jpeg'', ''png'', ''gif''})"

text \<open>One of the accepted type names occurs somewhere in the string.\<close>

definition names_accepted_type :: "string \<Rightarrow> bool" where
  "names_accepted_type s = (\<exists>a t b. s = a @ t @ b \<and> t \<in> {''jpeg'', ''jpg'', ''png'', ''gif''})"

text \<open>
  The directory \<open>outputs\<close> has an entry of this name, a file or a sub-directory; and
  the birth time of that entry.
\<close>

definition store_entry :: "env \<Rightarrow> world \<Rightarrow> string \<Rightarrow> bool" where
  "store_entry env w n =
     (n \<noteq> [] \<and> CHR ''/'' \<notin> set n \<and>
      (map_of (files w) (''outputs/'' @ n) \<noteq> None \<or> is_dir env w (''outputs/'' @ n)))"

definition created_of :: "env \<Rightarrow> world \<Rightarrow> string \<Rightarrow> nat" where
  "created_of env w n =
     (case map_of (files w) (''outputs/'' @ n) of
        Some f \<Rightarrow> birthtime f
      | None \<Rightarrow> dir_birthtime env (''outputs/'' @ n))"

text \<open>The listing entry of a name: its URL and the birth time of its entry.\<close>

definition info_of :: "env \<Rightarrow> world \<Rightarrow> string \<Rightarrow> image_info" where
  "info_of env w n =
     \<lparr>img_filename = n, img_url = ''/outputs/'' @ n, img_created = created_of env w n\<rparr>"


text \<open>The path line 106 computes for an upload, and whether a reply is the success body.\<close>

definition output_path :: "multer_file \<Rightarrow> path" where
  "output_path file = path_join [outputDir, outputFilename (filename file)]"

definition is_success :: "reply \<Rightarrow> bool" where
  "is_success r = (case r of ProcessedReply u n \<Rightarrow> True | _ \<Rightarrow> False)"

text \<open>
  The write of the output breaks off after the file was opened; and its absence together
  with a removal of the staged upload that does not raise.
\<close>

definition mid_write_fault :: "env \<Rightarrow> path \<Rightarrow> bool" where
  "mid_write_fault env p =
     (case write_fault env p of Some (WriteFails n e) \<Rightarrow> True | _ \<Rightarrow> False)"

definition no_late_fault :: "env \<Rightarrow> multer_file option \<Rightarrow> bool" where
  "no_late_fault env req =
     (case req of
        None \<Rightarrow> True
      | Some file \<Rightarrow> \<not> mid_write_fault env (output_path file) \<and> unlink_fault env (path file) = None)"

text \<open>Reading a decimal numeral back, to tell the names of two timestamps apart.\<close>

definition digit_value :: "char \<Rightarrow> nat" where
  "digit_value c = length (takeWhile (\<lambda>x. x \<noteq> c) ''0123456789'')"

fun digits_value :: "nat \<Rightarrow> string \<Rightarrow> nat" where
  "digits_value acc [] = acc"
| "digits_value acc (c # cs) = digits_value (10 * acc + digit_value c) cs"

section \<open>Example inputs\<close>

text \<open>One opaque red pixel, and one pixel whose colour bytes add up to 2.\<close>

definition red_pixel :: PixelBuffer where
  "red_pixel = \<lparr>width = 1, height = 1, data = [255, 0, 0, 255]\<rparr>"

definition dark_pixel :: PixelBuffer where
  "dark_pixel = \<lparr>width = 1, height = 1, data = [0, 0, 2, 255]\<rparr>"

text \<open>
  Collaborators for the examples: an image file is four raw bytes, one pixel, and is
  encoded the same way; nothing raises, the clock stands at 17, every directory was born
  at 1, and the server runs in \<open>/srv/app\<close> with the legacy \<open>send\<close>. In \<open>disk_full_env\<close>
  every write breaks off after two bytes, in \<open>locked_env\<close> no file can be removed.
\<close>

definition raw_env :: env where
  "raw_env =
     \<lparr>decode = (\<lambda>b. if length b = 4 then Inr \<lparr>width = 1, height = 1, data = b\<rparr>
                     else Inl ''Unsupported image type''),
      encode = (\<lambda>B. Inr (data B)),
      write_fault = (\<lambda>p. None),
      unlink_fault = (\<lambda>p. None),
      readdir_fault = (\<lambda>p. None),
      stat_fault = (\<lambda>p. None),
      send_fault = (\<lambda>p. None),
      clock = 17,
      dirs = [],
      dir_birthtime = (\<lambda>p. 1),
      cwd = ''/srv/app'',
      send_legacy = True\<rparr>"

definition disk_full_env :: env where
  "disk_full_env = raw_env\<lparr>write_fault := (\<lambda>p. Some (WriteFails 2 ''ENOSPC''))\<rparr>"

definition locked_env :: env where
  "locked_env = raw_env\<lparr>unlink_fault := (\<lambda>p. Some ''EPERM'')\<rparr>"

text \<open>
  Two uploads staged in the same millisecond whose original names differ only after the
  first dot, and the two runs of the route on them.
\<close>

definition empty_world :: world where
  "empty_world = \<lparr>files = [], events = []\<rparr>"

definition two_staged :: world where
  "two_staged =
     \<lparr>files = [(''uploads/17-a.b.png'', \<lparr>content = [0, 0, 2, 255], birthtime = 17\<rparr>),
               (''uploads/17-a.c.png'', \<lparr>content = [255, 0, 0, 255], birthtime = 17\<rparr>)],
      events = []\<rparr>"

definition staged_ab :: multer_file where
  "staged_ab = \<lparr>originalname = ''a.b.png'', mimetype = ''image/png'', payload = [0, 0, 2, 255],
                 path = ''uploads/17-a.b.png'', filename = multer_filename 17 ''a.b.png''\<rparr>"

definition staged_ac :: multer_file where
  "staged_ac = \<lparr>originalname = ''a.c.png'', mimetype = ''image/png'', payload = [255, 0, 0, 255],
                 path = ''uploads/17-a.c.png'', filename = multer_filename 17 ''a.c.png''\<rparr>"

definition after_first :: world where
  "after_first = fst (process_image_handler raw_env two_staged (Some staged_ab))"

definition after_second :: world where
  "after_second = fst (process_image_handler raw_env after_first (Some staged_ac))"

text \<open>One staged upload, once with a readable image and once with three stray bytes.\<close>

definition staged_file :: multer_file where
  "staged_file = \<lparr>originalname = ''a.png'', mimetype = ''image/png'', payload = [0, 0, 2, 255],
                   path = ''uploads/17-a.png'', filename = ''17-a.png''\<rparr>"

definition staged_world :: world where
  "staged_world = \<lparr>files = [(''uploads/17-a.png'', \<lparr>content = [0, 0, 2, 255], birthtime = 17\<rparr>)],
                    events = []\<rparr>"

definition broken_world :: world where
  "broken_world = \<lparr>files = [(''uploads/17-a.png'', \<lparr>content = [1, 2, 3], birthtime = 17\<rparr>)],
                    events = []\<rparr>"


definition listing_world :: world where
  "listing_world =
     \<lparr>files = [(''outputs/a.PNG'', \<lparr>content = [1], birthtime = 3\<rparr>),
               (''outputs/notes.txt'', \<lparr>content = [2], birthtime = 4\<rparr>),
               (''uploads/17-b.png'', \<lparr>content = [3], birthtime = 5\<rparr>),
               (''outputs/sub.png/inner.txt'', \<lparr>content = [4], birthtime = 6\<rparr>),
               (''outputs/.hidden.png'', \<lparr>content = [5], birthtime = 7\<rparr>)],
      events = []\<rparr>"

text \<open>
  The same collaborators with the \<open>send\<close> of Express 5; with a stat that raises
  for the entry \<open>a.PNG\<close>, as it does for a symbolic link whose target is gone; with
  a stat that raises for the output \<open>processed-17-a.png\<close>, as it does once the
  directory has lost its search permission; and with a file \<open>a.PNG\<close> that the server
  may not read.
\<close>

definition modern_env :: env where
  "modern_env = raw_env\<lparr>send_legacy := False\<rparr>"

definition dangling_env :: env where
  "dangling_env =
     raw_env\<lparr>stat_fault := (\<lambda>p. if p = ''outputs/a.PNG'' then Some ''ENOENT'' else None)\<rparr>"

definition stale_env :: env where
  "stale_env =
     raw_env\<lparr>stat_fault := (\<lambda>p. if p = ''outputs/processed-17-a.png'' then Some ''EACCES''
                                  else None)\<rparr>"

definition unreadable_env :: env where
  "unreadable_env =
     raw_env\<lparr>send_fault := (\<lambda>p. if p = ''outputs/a.PNG'' then Some ''EACCES'' else None)\<rparr>"

definition png_as_jpeg :: incoming where
  "png_as_jpeg = \<lparr>originalname = ''a.png'', mimetype = ''image/jpeg'', payload = [0, 0, 2, 255]\<rparr>"

definition gifv_upload :: incoming where
  "gifv_upload = \<lparr>originalname = ''clip.gifv'', mimetype = ''image/gif'', payload = [0, 0, 2, 255]\<rparr>"

section \<open>The loop, byte by byte\<close>

lemma clamp_rounds:
  fixes q r :: nat
  assumes "3 * q + r \<le> 765" "r < 3"
  shows "ToUint8Clamp (Some (of_nat (3 * q + r) / 3)) = of_nat (if r = 2 then q + 1 else q)"
proof -
  let ?x = "(of_nat (3 * q + r) :: rat) / 3"
  have x: "?x = of_nat q + of_nat r / 3" by (simp add: field_simps)
  have fl: "\<lfloor>?x\<rfloor> = int q"
    using floor_divide_of_nat_eq [of "3 * q + r" 3, where ?'a = rat] assms(2) by simp
  have q255: "q \<le> 255" using assms by linarith
  consider "r = 0" | "r = 1" | "r = 2" using assms(2) by linarith
  then show ?thesis
  proof cases
    case 1
    show ?thesis
    proof (cases "q = 0")
      case True
      with 1 show ?thesis by (simp add: ToUint8Clamp_def)
    next
      case False
      show ?thesis
      proof (cases "q = 255")
        case True
        with 1 show ?thesis by (simp add: ToUint8Clamp_def)
      next
        case F2: False
        with False q255 have "q < 255" "0 < q" by simp_all
        with 1 show ?thesis by (simp add: ToUint8Clamp_def Let_def)
      qed
    qed
  next
    case 2
    have "q < 255" using assms 2 by linarith
    have pos: "\<not> ?x \<le> 0" unfolding x using 2 by (simp add: add_nonneg_pos not_le)
    have lt: "\<not> 255 \<le> ?x" unfolding x using 2 \<open>q < 255\<close> by (simp add: not_le) 
    show ?thesis
      unfolding ToUint8Clamp_def option.case if_not_P [OF pos] if_not_P [OF lt] Let_def fl
      using 2 by (simp add: x)
  next
    case 3
    have "q < 255" using assms 3 by linarith
    have pos: "\<not> ?x \<le> 0" unfolding x using 3 by (simp add: add_nonneg_pos not_le)
    have lt: "\<not> 255 \<le> ?x" unfolding x using 3 \<open>q < 255\<close> by (simp add: not_le) 
    show ?thesis
      unfolding ToUint8Clamp_def option.case if_not_P [OF pos] if_not_P [OF lt] Let_def fl
      using 3 by (simp add: x)
  qed
qed

lemma length_paint: "length (paint d i) = length d"
  by (simp add: paint_def store_def Let_def)

lemma length_grayscale_loop: "length (grayscale_loop i d) = length d"
proof (induction i d rule: grayscale_loop.induct)
  case (1 i d)
  then show ?case by (subst grayscale_loop.simps) (simp add: length_paint)
qed

lemma paint_nth:
  "j < length d \<Longrightarrow> paint d i ! j =
     (if j = i \<or> j = i + 1 \<or> j = i + 2 then ToUint8Clamp (pixel_avg d i) else d ! j)"
  by (auto simp: paint_def store_def Let_def nth_list_update)

lemma pixel_avg_paint:
  "i + 4 \<le> b \<Longrightarrow> pixel_avg (paint d i) b = pixel_avg d b"
  by (simp add: pixel_avg_def elem_def length_paint paint_nth)

lemma grayscale_loop_nth:
  "j < length d \<Longrightarrow> grayscale_loop i d ! j = gray_at d i j"
proof (induction i d rule: grayscale_loop.induct)
  case (1 i d)
  show ?case
  proof (cases "i < length d")
    case False
    with 1(2) show ?thesis by (subst grayscale_loop.simps) (simp add: gray_at_def)
  next
    case True
    have jl: "j < length (paint d i)" using 1(2) by (simp add: length_paint)
    have step: "grayscale_loop i d ! j = gray_at (paint d i) (i + 4) j"
      using 1(1) [OF True jl] True by (subst grayscale_loop.simps) simp
    consider "j < i" | "i \<le> j" "j < i + 4" | "i + 4 \<le> j" by linarith
    then show ?thesis
    proof cases
      case 1
      then show ?thesis using step \<open>j < length d\<close> by (simp add: gray_at_def paint_nth)
    next
      case 2
      then consider "j = i" | "j = i + 1" | "j = i + 2" | "j = i + 3" by linarith
      then show ?thesis
      proof cases
        case 1
        then show ?thesis using step \<open>j < length d\<close> by (simp add: gray_at_def paint_nth)
      next
        case 2
        then show ?thesis using step \<open>j < length d\<close> by (simp add: gray_at_def paint_nth)
      next
        case 3
        then show ?thesis using step \<open>j < length d\<close> by (simp add: gray_at_def paint_nth)
      next
        case 4
        then show ?thesis using step \<open>j < length d\<close> by (simp add: gray_at_def paint_nth)
      qed
    next
      case 3
      define k where "k = (j - i) mod 4"
      have "j - i = (j - (i + 4)) + 4" using 3 by linarith
      then have k: "(j - (i + 4)) mod 4 = k" unfolding k_def by (simp only: mod_add_self2)
      have kle: "k \<le> j - (i + 4)" unfolding k[symmetric] by simp
      have b: "i + 4 \<le> j - k" using kle 3 by linarith
      show ?thesis using step 3 \<open>j < length d\<close> k b
        by (simp add: gray_at_def paint_nth pixel_avg_paint k_def)
    qed
  qed
qed

lemma clamp_third:
  assumes "s \<le> 765"
  shows "ToUint8Clamp (Some (of_nat s / 3)) = of_nat ((s + 1) div 3)"
proof -
  have r: "s mod 3 < 3" by simp
  have s: "3 * (s div 3) + s mod 3 = s" by simp
  have d: "(s + 1) div 3 = (if s mod 3 = 2 then s div 3 + 1 else s div 3)" by presburger
  show ?thesis
    using clamp_rounds [of "s div 3" "s mod 3"] assms r unfolding s d by simp
qed

lemma clamp_byte: "ToUint8Clamp (Some (of_nat (unat (c :: byte)))) = c"
proof -
  have "unat c \<le> 255" using unsigned_less [of c, where ?'a = nat] by simp
  then have "ToUint8Clamp (Some (of_nat (3 * unat c + 0) / 3)) = of_nat (unat c)"
    using clamp_rounds [of "unat c" 0] by simp
  then show ?thesis by simp
qed

lemma unat_le_255: "unat (c :: byte) \<le> 255"
  using unsigned_less [of c, where ?'a = nat] by simp

lemma pixel_avg_in:
  "i + 2 < length d \<Longrightarrow>
   pixel_avg d i = Some (of_nat (unat (d ! i) + unat (d ! (i + 1)) + unat (d ! (i + 2))) / 3)"
  by (simp add: pixel_avg_def elem_def js_add_def js_div_def)

lemma pixel_avg_out: "\<not> i + 2 < length d \<Longrightarrow> pixel_avg d i = None"
  by (simp add: pixel_avg_def elem_def js_add_def js_div_def)

lemma gray_value:
  assumes "i + 2 < length d"
  shows "ToUint8Clamp (pixel_avg d i) =
     of_nat ((unat (d ! i) + unat (d ! (i + 1)) + unat (d ! (i + 2)) + 1) div 3)"
proof -
  have "unat (d ! i) + unat (d ! (i + 1)) + unat (d ! (i + 2)) \<le> 765"
    using unat_le_255 [of "d ! i"] unat_le_255 [of "d ! (i + 1)"] unat_le_255 [of "d ! (i + 2)"]
    by linarith
  then show ?thesis unfolding pixel_avg_in [OF assms] by (rule clamp_third)
qed

lemma unat_gray:
  fixes a b c :: byte
  shows "unat (of_nat ((unat a + unat b + unat c + 1) div 3) :: byte) = (unat a + unat b + unat c + 1) div 3"
proof -
  have "(unat a + unat b + unat c + 1) div 3 < 256"
    using unat_le_255 [of a] unat_le_255 [of b] unat_le_255 [of c] by linarith
  then show ?thesis by (simp add: unat_of_nat)
qed

lemma gray_at_color:
  assumes "c < 3"
  shows "gray_at d 0 (4 * p + c) = ToUint8Clamp (pixel_avg d (4 * p))"
  using assms by (simp add: gray_at_def)

lemma gray_at_alpha: "gray_at d 0 (4 * p + 3) = d ! (4 * p + 3)"
  by (simp add: gray_at_def)

lemma grayscale_loop_idem: "grayscale_loop 0 (grayscale_loop 0 d) = grayscale_loop 0 d"
proof (rule nth_equalityI)
  show "length (grayscale_loop 0 (grayscale_loop 0 d)) = length (grayscale_loop 0 d)"
    by (simp add: length_grayscale_loop)
next
  fix j
  assume "j < length (grayscale_loop 0 (grayscale_loop 0 d))"
  then have j: "j < length d" by (simp add: length_grayscale_loop)
  let ?g = "grayscale_loop 0 d"
  have jg: "j < length ?g" using j by (simp add: length_grayscale_loop)
  define k where "k = j mod 4"
  define b where "b = j - k"
  have kb: "k < 4" "k \<le> j" "b mod 4 = 0" "j = b + k"
    unfolding k_def b_def by (simp_all add: mod_le_divisor minus_mod_eq_mult_div)
  show "grayscale_loop 0 ?g ! j = ?g ! j"
  proof (cases "k = 3")
    case True
    then show ?thesis
      using grayscale_loop_nth [OF jg, of 0] grayscale_loop_nth [OF j, of 0]
      by (simp add: gray_at_def k_def)
  next
    case False
    have l: "grayscale_loop 0 ?g ! j = ToUint8Clamp (pixel_avg ?g b)"
      using grayscale_loop_nth [OF jg, of 0] False by (simp add: gray_at_def k_def b_def)
    have r: "?g ! j = ToUint8Clamp (pixel_avg d b)"
      using grayscale_loop_nth [OF j, of 0] False by (simp add: gray_at_def k_def b_def)
    show ?thesis
    proof (cases "b + 2 < length d")
      case F: False
      then have "\<not> b + 2 < length ?g" by (simp add: length_grayscale_loop)
      then show ?thesis unfolding l r using F by (simp add: pixel_avg_out)
    next
      case T: True
      let ?c = "ToUint8Clamp (pixel_avg d b)"
      have e: "?g ! (b + i) = ?c" if "i < 3" for i
      proof -
        have "(b + i) mod 4 = i" using kb(3) that by presburger
        then show ?thesis
          using grayscale_loop_nth [of "b + i" d 0] T that by (simp add: gray_at_def)
      qed
      have e0: "?g ! b = ?c" using e [of 0] by simp
      have e1: "?g ! (b + 1) = ?c" using e [of 1] by simp
      have e2: "?g ! (b + 2) = ?c" using e [of 2] by simp
      have Tg: "b + 2 < length ?g" using T by (simp add: length_grayscale_loop)
      have "pixel_avg ?g b = Some (of_nat (3 * unat ?c + 0) / 3)"
        unfolding pixel_avg_in [OF Tg] e0 e1 e2 by simp
      then have "ToUint8Clamp (pixel_avg ?g b) = ?c"
        using clamp_byte [of ?c] by simp
      then show ?thesis unfolding l r .
    qed
  qed
qed

lemma nearest_third: "\<bar>rat_of_nat ((s + 1) div 3) - rat_of_nat s / 3\<bar> < 1 / 2"
proof -
  define q where "q = s div 3"
  define r where "r = s mod 3"
  have r: "r < 3" by (simp add: r_def)
  have e: "rat_of_nat s = 3 * rat_of_nat q + rat_of_nat r"
  proof -
    have "s = 3 * q + r" by (simp add: q_def r_def)
    then have "rat_of_nat s = rat_of_nat (3 * q + r)" by simp
    then show ?thesis by simp
  qed
  have d: "(s + 1) div 3 = (if r = 2 then q + 1 else q)"
    unfolding q_def r_def by presburger
  consider "r = 0" | "r = 1" | "r = 2" using r by linarith
  then show ?thesis
  proof cases
    case 1 then show ?thesis unfolding d e by simp
  next
    case 2 then show ?thesis unfolding d e by (simp add: field_simps)
  next
    case 3 then show ?thesis unfolding d e by (simp add: field_simps)
  qed
qed

lemma dark_pixel_clamped: "data (grayscale dark_pixel) = [1, 1, 1, 255]"
  unfolding dark_pixel_def by code_simp

section \<open>Splitting, matching and timestamps\<close>

lemma split_on_nonempty: "split_on c s \<noteq> []"
  by (induction s) (auto split: list.splits)

lemma hd_split_on: "hd (split_on c s) = takeWhile (\<lambda>x. x \<noteq> c) s"
  by (induction s) (auto split: list.splits simp: split_on_nonempty)

lemma split_on_plain: "c \<notin> set s \<Longrightarrow> split_on c s = [s]"
  by (induction s) auto

lemma split_on_append: "c \<notin> set a \<Longrightarrow> split_on c (a @ c # b) = a # split_on c b"
  by (induction a) auto

lemma digit_cases: "(d::nat) < 10 \<Longrightarrow> d \<in> {0, 1, 2, 3, 4, 5, 6, 7, 8, 9}"
  by auto

lemma digit_value_char: "d < 10 \<Longrightarrow> digit_value (digit_char d) = d"
  using digit_cases [of d] by (auto simp: digit_value_def digit_char_def)

lemma digit_char_in: "d < 10 \<Longrightarrow> digit_char d \<in> set ''0123456789''"
  using digit_cases [of d] by (auto simp: digit_char_def)

lemma digits_value_append: "digits_value acc (xs @ [c]) = 10 * digits_value acc xs + digit_value c"
  by (induction xs arbitrary: acc) auto

lemma digits_value_string_of_nat: "digits_value 0 (string_of_nat n) = n"
proof (induction n rule: string_of_nat.induct)
  case (1 n)
  show ?case
  proof (cases "n < 10")
    case True
    then show ?thesis by (subst string_of_nat.simps) (simp add: digit_value_char)
  next
    case False
    then have "digits_value 0 (string_of_nat (n div 10)) = n div 10" using 1 by simp
    then show ?thesis using False
      by (subst string_of_nat.simps) (simp add: digits_value_append digit_value_char)
  qed
qed

lemma string_of_nat_inj: "string_of_nat a = string_of_nat b \<Longrightarrow> a = b"
  by (metis digits_value_string_of_nat)

lemma string_of_nat_digits: "set (string_of_nat n) \<subseteq> set ''0123456789''"
proof (induction n rule: string_of_nat.induct)
  case (1 n)
  show ?case
  proof (cases "n < 10")
    case True
    then show ?thesis using digit_char_in [of n] by (subst string_of_nat.simps) simp
  next
    case False
    then have "set (string_of_nat (n div 10)) \<subseteq> set ''0123456789''" using 1 by simp
    moreover have "digit_char (n mod 10) \<in> set ''0123456789''" by (rule digit_char_in) simp
    ultimately show ?thesis using False by (subst string_of_nat.simps) simp
  qed
qed

lemma takeWhile_append_stop:
  "\<forall>x \<in> set a. P x \<Longrightarrow> \<not> P c \<Longrightarrow> takeWhile P (a @ c # b) = a"
  by (induction a) auto

lemma takeWhile_append_pass:
  "\<forall>x \<in> set a. P x \<Longrightarrow> takeWhile P (a @ b) = a @ takeWhile P b"
  by (induction a) auto

lemma stem_multer_filename:
  "takeWhile (\<lambda>x. x \<noteq> CHR ''.'') (multer_filename t name) =
     string_of_nat t @ ''-'' @ takeWhile (\<lambda>x. x \<noteq> CHR ''.'') name"
proof -
  have "\<forall>x \<in> set (string_of_nat t @ ''-''). x \<noteq> CHR ''.''"
    using string_of_nat_digits [of t] by auto
  then show ?thesis
    unfolding multer_filename_def append_assoc [symmetric] by (rule takeWhile_append_pass)
qed

lemma dash_split:
  assumes "string_of_nat a @ ''-'' @ s = string_of_nat b @ ''-'' @ t"
  shows "a = b \<and> s = t"
proof -
  have da: "\<forall>x \<in> set (string_of_nat a). x \<noteq> CHR ''-''" using string_of_nat_digits [of a] by auto
  have db: "\<forall>x \<in> set (string_of_nat b). x \<noteq> CHR ''-''" using string_of_nat_digits [of b] by auto
  have "takeWhile (\<lambda>x. x \<noteq> CHR ''-'') (string_of_nat a @ CHR ''-'' # s) = string_of_nat a"
    using da by (intro takeWhile_append_stop) auto
  moreover have "takeWhile (\<lambda>x. x \<noteq> CHR ''-'') (string_of_nat b @ CHR ''-'' # t) = string_of_nat b"
    using db by (intro takeWhile_append_stop) auto
  ultimately have e: "string_of_nat a = string_of_nat b" using assms by simp
  then have "a = b" by (rule string_of_nat_inj)
  moreover have "s = t" using assms e by simp
  ultimately show ?thesis by simp
qed

lemma outputFilename_stem: "outputFilename name = ''processed-'' @ takeWhile (\<lambda>x. x \<noteq> CHR ''.'') name @ ''.png''"
  by (simp add: outputFilename_def hd_split_on)

lemma path_join_plain:
  assumes "plain_name n"
  shows "path_join [outputDir, n] = ''outputs/'' @ n"
proof -
  have n: "n \<noteq> []" "n \<noteq> ''.''" "n \<noteq> ''..''" "CHR ''/'' \<notin> set n"
    using assms by (simp_all add: plain_name_def)
  define P where "P = ''outputs'' @ CHR ''/'' # n"
  have sp: "split_on CHR ''/'' P = [''outputs'', n]"
    unfolding P_def
    using split_on_append [of "CHR ''/''" "''outputs''" n] split_on_plain [of "CHR ''/''" n] n(4)
    by simp
  have ns: "normalizeString P True = ''outputs/'' @ n"
    unfolding normalizeString_def sp using n by simp
  have "last n \<in> set n" using n(1) by (rule last_in_set)
  then have "last n \<noteq> CHR ''/''" using n(4) by auto
  then have l: "last P \<noteq> CHR ''/''" using n(1) by (simp add: P_def)
  have h: "hd P \<noteq> CHR ''/''" by (simp add: P_def)
  have ne: "P \<noteq> []" by (simp add: P_def)
  have "path_normalize P = ''outputs/'' @ n"
    unfolding path_normalize_def Let_def using l h ne ns by simp
  moreover have "path_join [outputDir, n] = path_normalize P"
    using n(1) by (simp add: path_join_def outputDir_def P_def)
  ultimately show ?thesis by simp
qed

lemma startsWith_iff: "startsWith s p \<longleftrightarrow> (\<exists>r. s = p @ r)"
  by (induction s p rule: startsWith.induct) auto

lemma endsWith_iff: "endsWith s p \<longleftrightarrow> (\<exists>r. s = r @ p)"
proof -
  have "endsWith s p \<longleftrightarrow> (\<exists>r. rev s = rev p @ r)" by (simp add: endsWith_def startsWith_iff)
  also have "\<dots> \<longleftrightarrow> (\<exists>r. s = r @ p)"
  proof
    assume "\<exists>r. rev s = rev p @ r"
    then obtain r where "rev s = rev p @ r" ..
    then have "s = rev r @ p" by (metis rev_append rev_rev_ident)
    then show "\<exists>r. s = r @ p" ..
  next
    assume "\<exists>r. s = r @ p"
    then obtain r where "s = r @ p" ..
    then have "rev s = rev p @ rev r" by simp
    then show "\<exists>r. rev s = rev p @ r" ..
  qed
  finally show ?thesis .
qed

lemma str_includes_iff: "str_includes s p \<longleftrightarrow> (\<exists>a b. s = a @ p @ b)"
proof (induction s)
  case Nil
  then show ?case by auto
next
  case (Cons c s)
  show ?case
  proof
    assume "str_includes (c # s) p"
    then consider "startsWith (c # s) p" | "str_includes s p" by auto
    then show "\<exists>a b. c # s = a @ p @ b"
    proof cases
      case 1
      then obtain r where "c # s = p @ r" by (auto simp: startsWith_iff)
      then have "c # s = [] @ p @ r" by simp
      then show ?thesis by blast
    next
      case 2
      then obtain a b where "s = a @ p @ b" using Cons by auto
      then have "c # s = (c # a) @ p @ b" by simp
      then show ?thesis by blast
    qed
  next
    assume "\<exists>a b. c # s = a @ p @ b"
    then obtain a b where ab: "c # s = a @ p @ b" by blast
    show "str_includes (c # s) p"
    proof (cases a)
      case Nil
      then have "startsWith (c # s) p" using ab by (auto simp: startsWith_iff)
      then show ?thesis by simp
    next
      case (Cons x a')
      then have "s = a' @ p @ b" using ab by simp
      then have "str_includes s p" using Cons.IH by blast
      then show ?thesis by simp
    qed
  qed
qed

lemma toLowerCase_char_dot: "toLowerCase_char c = CHR ''.'' \<longleftrightarrow> c = CHR ''.''"
  by (simp add: toLowerCase_char_def)

lemma toLowerCase_append: "toLowerCase (a @ b) = toLowerCase a @ toLowerCase b"
  by (simp add: toLowerCase_def)

lemma toLowerCase_dot_ext:
  "toLowerCase s = CHR ''.'' # e \<longleftrightarrow> (\<exists>ext. s = CHR ''.'' # ext \<and> toLowerCase ext = e)"
  by (cases s) (auto simp: toLowerCase_def toLowerCase_char_dot)

lemma lower_suffix_iff:
  "endsWith (toLowerCase n) (CHR ''.'' # e) \<longleftrightarrow> (\<exists>stem ext. n = stem @ ''.'' @ ext \<and> toLowerCase ext = e)"
proof
  assume "endsWith (toLowerCase n) (CHR ''.'' # e)"
  then obtain r where r: "toLowerCase n = r @ CHR ''.'' # e" unfolding endsWith_iff ..
  define a where "a = take (length r) n"
  define b where "b = drop (length r) n"
  have n: "n = a @ b" by (simp add: a_def b_def)
  have "length (toLowerCase n) = length n" by (simp add: toLowerCase_def)
  then have "length r \<le> length n" using r by simp
  then have la: "length (toLowerCase a) = length r" by (simp add: a_def toLowerCase_def)
  have "toLowerCase a @ toLowerCase b = r @ CHR ''.'' # e"
    using r n by (simp add: toLowerCase_append)
  then have "toLowerCase b = CHR ''.'' # e" using la by simp
  then obtain ext where "b = CHR ''.'' # ext" "toLowerCase ext = e"
    unfolding toLowerCase_dot_ext by blast
  then have "n = a @ ''.'' @ ext \<and> toLowerCase ext = e" using n by simp
  then show "\<exists>stem ext. n = stem @ ''.'' @ ext \<and> toLowerCase ext = e" by blast
next
  assume "\<exists>stem ext. n = stem @ ''.'' @ ext \<and> toLowerCase ext = e"
  then obtain stem ext where "n = stem @ ''.'' @ ext" "toLowerCase ext = e" by blast
  then have "toLowerCase n = toLowerCase stem @ CHR ''.'' # e"
    by (simp add: toLowerCase_def toLowerCase_char_dot)
  then show "endsWith (toLowerCase n) (CHR ''.'' # e)" unfolding endsWith_iff by blast
qed

lemma raster_test_iff: "raster_test n \<longleftrightarrow> has_raster_extension n"
proof -
  have "raster_test n \<longleftrightarrow>
      endsWith (toLowerCase n) (CHR ''.'' # ''jpg'') \<or> endsWith (toLowerCase n) (CHR ''.'' # ''jpeg'') \<or>
      endsWith (toLowerCase n) (CHR ''.'' # ''png'') \<or> endsWith (toLowerCase n) (CHR ''.'' # ''gif'')"
    by (simp add: raster_test_def Let_def)
  also have "\<dots> \<longleftrightarrow> has_raster_extension n"
    unfolding lower_suffix_iff has_raster_extension_def by blast
  finally show ?thesis .
qed

lemma raster_test_not_dots: "raster_test n \<Longrightarrow> n \<noteq> ''.'' \<and> n \<noteq> ''..''"
  by (auto simp: raster_test_def Let_def toLowerCase_def toLowerCase_char_def endsWith_def)

lemma raster_plain:
  assumes "n \<noteq> []" "CHR ''/'' \<notin> set n" "raster_test n"
  shows "plain_name n"
  using assms raster_test_not_dots [of n] by (simp add: plain_name_def)

lemma allowedTypes_test_iff: "allowedTypes_test s \<longleftrightarrow> names_accepted_type s"
  unfolding allowedTypes_test_def names_accepted_type_def str_includes_iff by blast

lemma fileFilter_iff:
  "fileFilter file = Inr True \<longleftrightarrow>
     names_accepted_type (toLowerCase (path_extname (originalname file))) \<and>
     names_accepted_type (mimetype file)"
  by (auto simp: fileFilter_def Let_def allowedTypes_test_iff)

lemma fileFilter_reject:
  "fileFilter file \<noteq> Inr True \<Longrightarrow> fileFilter file = Inl ''Only image files are allowed!''"
  by (auto simp: fileFilter_def Let_def)

section \<open>Effects of the file system calls and of the pipeline\<close>

lemma writeFileSync_frame:
  "writeFileSync env w p buf = (w', r) \<Longrightarrow> k \<noteq> p \<Longrightarrow> map_of (files w') k = map_of (files w) k"
  by (auto simp: writeFileSync_def log_event_def Let_def update_conv'
      split: option.splits write_fault.splits)

lemma writeFileSync_clean_failure:
  "writeFileSync env w p buf = (w', Some e) \<Longrightarrow> \<not> mid_write_fault env p \<Longrightarrow> files w' = files w"
  by (auto simp: writeFileSync_def log_event_def Let_def mid_write_fault_def
      split: option.splits write_fault.splits)

lemma writeFileSync_success:
  "writeFileSync env w p buf = (w', None) \<Longrightarrow>
     map_of (files w') p \<noteq> None \<and> events w' = events w @ [WriteFile p] \<and>
     (\<forall>k. map_of (files w) k \<noteq> None \<longrightarrow> map_of (files w') k \<noteq> None)"
  by (auto simp: writeFileSync_def log_event_def Let_def update_conv'
      split: option.splits write_fault.splits)

lemma processImage_frame:
  "processImage env w i p = (w', r) \<Longrightarrow> k \<noteq> p \<Longrightarrow> map_of (files w') k = map_of (files w) k"
  by (auto simp: processImage_def Let_def log_event_def
      split: sum.splits prod.splits option.splits dest: writeFileSync_frame)

lemma processImage_clean_failure:
  "processImage env w i p = (w', Failure e) \<Longrightarrow> \<not> mid_write_fault env p \<Longrightarrow> files w' = files w"
  by (auto simp: processImage_def Let_def log_event_def
      split: sum.splits prod.splits option.splits dest: writeFileSync_clean_failure)

lemma processImage_success:
  "processImage env w i p = (w', Success m) \<Longrightarrow>
     map_of (files w) i \<noteq> None \<and> map_of (files w') i \<noteq> None \<and> map_of (files w') p \<noteq> None \<and>
     events w' = events w @ [LoadImage i, WriteFile p]"
  by (auto simp: processImage_def Let_def log_event_def loadImage_def
      split: sum.splits prod.splits option.splits dest!: writeFileSync_success)

lemma unlinkSync_cases:
  "unlinkSync env w p = (w', r) \<Longrightarrow>
     events w' = events w @ [Unlink p] \<and>
     (case r of
        Some e \<Rightarrow> files w' = files w
      | None \<Rightarrow> unlink_fault env p = None \<and> map_of (files w') p = None \<and>
                (\<forall>k. k \<noteq> p \<longrightarrow> map_of (files w') k = map_of (files w) k))"
  by (auto simp: unlinkSync_def log_event_def Let_def delete_conv'
      split: option.splits if_splits)

lemma unlinkSync_raises:
  "unlinkSync env w p = (w', Some e) \<Longrightarrow> unlink_fault env p \<noteq> None \<or> map_of (files w) p = None"
  by (auto simp: unlinkSync_def log_event_def Let_def split: option.splits if_splits)

lemma handler_unfold:
  "process_image_handler env w (Some file) =
     (case processImage env w (path file) (output_path file) of
        (w1, Success msg) \<Rightarrow>
          (case unlinkSync env w1 (path file) of
             (w2, Some err) \<Rightarrow> (w2, ErrorReply 500 ''Internal server error during image processing'')
           | (w2, None) \<Rightarrow>
               (w2, ProcessedReply (''/outputs/'' @ outputFilename (filename file))
                      (outputFilename (filename file))))
      | (w1, Failure err) \<Rightarrow> (w1, ErrorReply 500 err))"
  by (simp only: process_image_handler_def output_path_def Let_def option.case)

lemma post_accept:
  "fileFilter file = Inr True \<Longrightarrow> \<not> 10 * 1024 * 1024 < length (payload file) \<Longrightarrow>
   post_process_image env w (Some file) =
     (case diskStorage env w file of (w1, staged) \<Rightarrow> process_image_handler env w1 (Some staged))"
  by (simp add: post_process_image_def upload_single_def split: prod.splits)

lemma post_reject:
  "fileFilter file = Inl err \<Longrightarrow> post_process_image env w (Some file) = (w, ErrorReply 500 err)"
  by (simp add: post_process_image_def upload_single_def)

lemma handler_clean_failure:
  "process_image_handler env w req = (w', ErrorReply st msg) \<Longrightarrow> no_late_fault env req \<Longrightarrow>
     files w' = files w"
proof (cases req)
  case None
  assume "process_image_handler env w req = (w', ErrorReply st msg)"
  then show ?thesis using None by (simp add: process_image_handler_def)
next
  case (Some f)
  assume run: "process_image_handler env w req = (w', ErrorReply st msg)"
  assume "no_late_fault env req"
  then have nf: "\<not> mid_write_fault env (output_path f)" and uf: "unlink_fault env (path f) = None"
    using Some by (simp_all add: no_late_fault_def)
  obtain w1 res where p: "processImage env w (path f) (output_path f) = (w1, res)"
    by (cases "processImage env w (path f) (output_path f)")
  show ?thesis
  proof (cases res)
    case (Failure e)
    then have "w' = w1" using run Some p by (simp add: handler_unfold)
    then show ?thesis using processImage_clean_failure [of env w _ _ w1 e] p Failure nf by simp
  next
    case (Success m)
    obtain w2 ro where u: "unlinkSync env w1 (path f) = (w2, ro)"
      by (cases "unlinkSync env w1 (path f)")
    have ex: "map_of (files w1) (path f) \<noteq> None"
      using processImage_success [of env w _ _ w1 m] p Success by simp
    show ?thesis
    proof (cases ro)
      case None
      then show ?thesis using run Some p Success u by (simp add: handler_unfold)
    next
      case (Some e)
      then have "unlink_fault env (path f) \<noteq> None \<or> map_of (files w1) (path f) = None"
        using unlinkSync_raises [of env w1 _ w2 e] u by simp
      then show ?thesis using uf ex by simp
    qed
  qed
qed

section \<open>Directories, hidden names and the entries of the store\<close>









lemma is_dir_entry:
  assumes "CHR ''/'' \<notin> set n"
  shows "is_dir env w (''outputs/'' @ n) \<longleftrightarrow>
         ''outputs/'' @ n \<in> set (dirs env) \<or>
         (\<exists>q \<in> set (all_paths env w). startsWith q (''outputs/'' @ n @ ''/''))"
proof -
  have sp: "split_on CHR ''/'' (''outputs'' @ CHR ''/'' # n) = [''outputs'', n]"
    using split_on_append [of "CHR ''/''" "''outputs''" n] split_on_plain [of "CHR ''/''" n] assms
    by simp
  show ?thesis
    using sp by (simp add: is_dir_def list_ex_iff)
qed


lemma entry_name_iff:
  "x \<in> set (entry_name dir q) \<longleftrightarrow>
     x \<noteq> [] \<and> CHR ''/'' \<notin> set x \<and> (q = dir @ ''/'' @ x \<or> startsWith q (dir @ ''/'' @ x @ ''/''))"
proof (cases "startsWith q (dir @ ''/'')")
  case False
  then have no: "\<not> (\<exists>r. q = (dir @ ''/'') @ r)" by (simp add: startsWith_iff)
  have "q \<noteq> dir @ ''/'' @ x"
  proof
    assume "q = dir @ ''/'' @ x"
    then have "q = (dir @ ''/'') @ x" by simp
    then show False using no by blast
  qed
  moreover have "\<not> startsWith q (dir @ ''/'' @ x @ ''/'')"
  proof
    assume "startsWith q (dir @ ''/'' @ x @ ''/'')"
    then obtain r where "q = (dir @ ''/'' @ x @ ''/'') @ r" unfolding startsWith_iff ..
    then have "q = (dir @ ''/'') @ (x @ ''/'' @ r)" by simp
    then show False using no by blast
  qed
  ultimately show ?thesis using False by (simp add: entry_name_def)
next
  case True
  then obtain r where r: "q = (dir @ ''/'') @ r" unfolding startsWith_iff ..
  then have d: "drop (length dir + 1) q = r" by simp
  define n where "n = takeWhile (\<lambda>c. c \<noteq> CHR ''/'') r"
  have mem: "x \<in> set (entry_name dir q) \<longleftrightarrow> x = n \<and> n \<noteq> []"
    using True d by (auto simp: entry_name_def Let_def n_def)
  have nn: "CHR ''/'' \<notin> set n" unfolding n_def by (auto dest: set_takeWhileD)
  have split: "r = n @ dropWhile (\<lambda>c. c \<noteq> CHR ''/'') r" by (simp add: n_def)
  have shape: "r = x \<or> (\<exists>t. r = x @ ''/'' @ t) \<longleftrightarrow> x = n" if x: "CHR ''/'' \<notin> set x"
  proof
    assume "r = x \<or> (\<exists>t. r = x @ ''/'' @ t)"
    then show "x = n"
    proof
      assume rx: "r = x"
      have "takeWhile (\<lambda>c. c \<noteq> CHR ''/'') x = x"
        using x by (auto simp: takeWhile_eq_all_conv)
      then show ?thesis unfolding n_def rx by (rule sym)
    next
      assume "\<exists>t. r = x @ ''/'' @ t"
      then obtain t where rt: "r = x @ CHR ''/'' # t" by auto
      have "takeWhile (\<lambda>c. c \<noteq> CHR ''/'') (x @ CHR ''/'' # t) = x"
        using x by (intro takeWhile_append_stop) auto
      then show ?thesis unfolding n_def rt by (rule sym)
    qed
  next
    assume xn: "x = n"
    show "r = x \<or> (\<exists>t. r = x @ ''/'' @ t)"
    proof (cases "dropWhile (\<lambda>c. c \<noteq> CHR ''/'') r")
      case Nil
      from split have "r = n @ []" unfolding Nil .
      then show ?thesis using xn by simp
    next
      case (Cons c t)
      then have c: "c = CHR ''/''" using hd_dropWhile [of "\<lambda>c. c \<noteq> CHR ''/''" r] by auto
      from split have "r = n @ c # t" unfolding Cons .
      then have "r = x @ ''/'' @ t" using c xn by simp
      then show ?thesis by blast
    qed
  qed
  have q1: "q = dir @ ''/'' @ x \<longleftrightarrow> r = x" using r by simp
  have q2: "startsWith q (dir @ ''/'' @ x @ ''/'') \<longleftrightarrow> (\<exists>t. r = x @ ''/'' @ t)"
    unfolding startsWith_iff using r by auto
  show ?thesis
  proof (cases "CHR ''/'' \<in> set x")
    case True
    then show ?thesis using mem nn by auto
  next
    case False
    then show ?thesis unfolding mem q1 q2 using shape [OF False] by auto
  qed
qed

lemma in_all_paths:
  "q \<in> set (all_paths env w) \<longleftrightarrow> map_of (files w) q \<noteq> None \<or> q \<in> set (dirs env)"
  by (auto simp: all_paths_def map_of_eq_None_iff)

lemma readdir_entries:
  "set (remdups (concat (map (entry_name ''outputs'') (all_paths env w)))) = {n. store_entry env w n}"
proof (rule set_eqI)
  fix x
  have "x \<in> set (remdups (concat (map (entry_name ''outputs'') (all_paths env w)))) \<longleftrightarrow>
        (\<exists>q \<in> set (all_paths env w). x \<in> set (entry_name ''outputs'' q))"
    by auto
  also have "\<dots> \<longleftrightarrow> (\<exists>q \<in> set (all_paths env w). x \<noteq> [] \<and> CHR ''/'' \<notin> set x \<and>
        (q = ''outputs'' @ ''/'' @ x \<or> startsWith q (''outputs'' @ ''/'' @ x @ ''/'')))"
    by (simp only: entry_name_iff)
  also have "\<dots> \<longleftrightarrow> x \<noteq> [] \<and> CHR ''/'' \<notin> set x \<and>
        (''outputs/'' @ x \<in> set (all_paths env w) \<or>
         (\<exists>q \<in> set (all_paths env w). startsWith q (''outputs/'' @ x @ ''/'')))"
    by auto
  also have "\<dots> \<longleftrightarrow> store_entry env w x"
  proof (cases "CHR ''/'' \<in> set x")
    case True
    then show ?thesis by (simp add: store_entry_def)
  next
    case False
    show ?thesis
      unfolding store_entry_def is_dir_entry [OF False] in_all_paths using False by auto
  qed
  finally show "x \<in> set (remdups (concat (map (entry_name ''outputs'') (all_paths env w)))) \<longleftrightarrow>
      x \<in> {n. store_entry env w n}"
    by simp
qed

lemma statSync_entry:
  assumes "store_entry env w n" "stat_fault env (''outputs/'' @ n) = None"
  shows "statSync env w (''outputs/'' @ n) = Inr (created_of env w n)"
  using assms by (auto simp: statSync_def store_entry_def created_of_def split: option.splits)

lemma image_infos_present:
  "\<forall>n \<in> set names. plain_name n \<and> store_entry env w n \<and> stat_fault env (''outputs/'' @ n) = None \<Longrightarrow>
   image_infos env w names = Some (map (info_of env w) names)"
proof (induction names)
  case Nil
  then show ?case by simp
next
  case (Cons n names)
  then have p: "plain_name n" and e: "store_entry env w n"
    and s: "stat_fault env (''outputs/'' @ n) = None" by simp_all
  have "image_infos env w names = Some (map (info_of env w) names)" using Cons by simp
  then show ?case
    using statSync_entry [OF e s] by (simp add: path_join_plain [OF p] info_of_def)
qed

lemma image_infos_raises:
  "n \<in> set names \<Longrightarrow> plain_name n \<Longrightarrow> stat_fault env (''outputs/'' @ n) \<noteq> None \<Longrightarrow>
   image_infos env w names = None"
proof (induction names)
  case Nil
  then show ?case by simp
next
  case (Cons m names)
  show ?case
  proof (cases "m = n")
    case True
    have "statSync env w (''outputs/'' @ n) = Inl (the (stat_fault env (''outputs/'' @ n)))"
      using Cons.prems(3) by (auto simp: statSync_def)
    then show ?thesis using True path_join_plain [OF Cons.prems(2)] by simp
  next
    case False
    then have "image_infos env w names = None" using Cons by simp
    then show ?thesis by (simp split: sum.splits)
  qed
qed

lemma info_filenames: "map img_filename (map (info_of env w) xs) = xs"
  by (induction xs) (simp_all add: info_of_def)

lemma raster_entry_plain:
  assumes "store_entry env w n" "raster_test n"
  shows "plain_name n"
  using assms raster_plain [of n] by (simp add: store_entry_def)

section \<open>The example runs\<close>

lemma first_save:
  "process_image_handler raw_env two_staged (Some staged_ab) =
     (\<lparr>files = [(''uploads/17-a.c.png'', \<lparr>content = [255, 0, 0, 255], birthtime = 17\<rparr>),
                (''outputs/processed-17-a.png'', \<lparr>content = [1, 1, 1, 255], birthtime = 17\<rparr>)],
       events = [LoadImage ''uploads/17-a.b.png'', WriteFile ''outputs/processed-17-a.png'',
                 Unlink ''uploads/17-a.b.png'']\<rparr>,
      ProcessedReply ''/outputs/processed-17-a.png'' ''processed-17-a.png'')"
  by code_simp

lemma second_save:
  "process_image_handler raw_env after_first (Some staged_ac) =
     (\<lparr>files = [(''outputs/processed-17-a.png'', \<lparr>content = [85, 85, 85, 255], birthtime = 17\<rparr>)],
       events = [LoadImage ''uploads/17-a.b.png'', WriteFile ''outputs/processed-17-a.png'',
                 Unlink ''uploads/17-a.b.png'', LoadImage ''uploads/17-a.c.png'',
                 WriteFile ''outputs/processed-17-a.png'', Unlink ''uploads/17-a.c.png'']\<rparr>,
      ProcessedReply ''/outputs/processed-17-a.png'' ''processed-17-a.png'')"
  by code_simp

lemma png_as_jpeg_filter: "fileFilter png_as_jpeg = Inr True"
  by code_simp

lemma png_as_jpeg_staged:
  "(case diskStorage raw_env empty_world png_as_jpeg of
      (w1, staged) \<Rightarrow> process_image_handler raw_env w1 (Some staged)) =
     (\<lparr>files = [(''outputs/processed-17-a.png'', \<lparr>content = [1, 1, 1, 255], birthtime = 17\<rparr>)],
       events = [LoadImage ''uploads/17-a.png'', WriteFile ''outputs/processed-17-a.png'',
                 Unlink ''uploads/17-a.png'']\<rparr>,
      ProcessedReply ''/outputs/processed-17-a.png'' ''processed-17-a.png'')"
  by code_simp

lemma png_as_jpeg_run:
  "post_process_image raw_env empty_world (Some png_as_jpeg) =
     (\<lparr>files = [(''outputs/processed-17-a.png'', \<lparr>content = [1, 1, 1, 255], birthtime = 17\<rparr>)],
       events = [LoadImage ''uploads/17-a.png'', WriteFile ''outputs/processed-17-a.png'',
                 Unlink ''uploads/17-a.png'']\<rparr>,
      ProcessedReply ''/outputs/processed-17-a.png'' ''processed-17-a.png'')"
proof -
  have "\<not> 10 * 1024 * 1024 < length (payload png_as_jpeg)" by (simp add: png_as_jpeg_def)
  then show ?thesis
    using post_accept [OF png_as_jpeg_filter, of raw_env empty_world] png_as_jpeg_staged by simp
qed

lemma gifv_filter: "fileFilter gifv_upload = Inr True"
  by code_simp

lemma gifv_staged:
  "(case diskStorage raw_env empty_world gifv_upload of
      (w1, staged) \<Rightarrow> process_image_handler raw_env w1 (Some staged)) =
     (\<lparr>files = [(''outputs/processed-17-clip.png'', \<lparr>content = [1, 1, 1, 255], birthtime = 17\<rparr>)],
       events = [LoadImage ''uploads/17-clip.gifv'', WriteFile ''outputs/processed-17-clip.png'',
                 Unlink ''uploads/17-clip.gifv'']\<rparr>,
      ProcessedReply ''/outputs/processed-17-clip.png'' ''processed-17-clip.png'')"
  by code_simp

lemma gifv_run:
  "post_process_image raw_env empty_world (Some gifv_upload) =
     (\<lparr>files = [(''outputs/processed-17-clip.png'', \<lparr>content = [1, 1, 1, 255], birthtime = 17\<rparr>)],
       events = [LoadImage ''uploads/17-clip.gifv'', WriteFile ''outputs/processed-17-clip.png'',
                 Unlink ''uploads/17-clip.gifv'']\<rparr>,
      ProcessedReply ''/outputs/processed-17-clip.png'' ''processed-17-clip.png'')"
proof -
  have "\<not> 10 * 1024 * 1024 < length (payload gifv_upload)" by (simp add: gifv_upload_def)
  then show ?thesis
    using post_accept [OF gifv_filter, of raw_env empty_world] gifv_staged by simp
qed

lemma disk_full_run:
  "process_image_handler disk_full_env staged_world (Some staged_file) =
     (\<lparr>files = [(''uploads/17-a.png'', \<lparr>content = [0, 0, 2, 255], birthtime = 17\<rparr>),
                (''outputs/processed-17-a.png'', \<lparr>content = [1, 1], birthtime = 17\<rparr>)],
       events = [LoadImage ''uploads/17-a.png'', WriteFile ''outputs/processed-17-a.png'']\<rparr>,
      ErrorReply 500 ''ENOSPC'')"
  by code_simp

lemma locked_run:
  "process_image_handler locked_env staged_world (Some staged_file) =
     (\<lparr>files = [(''uploads/17-a.png'', \<lparr>content = [0, 0, 2, 255], birthtime = 17\<rparr>),
                (''outputs/processed-17-a.png'', \<lparr>content = [1, 1, 1, 255], birthtime = 17\<rparr>)],
       events = [LoadImage ''uploads/17-a.png'', WriteFile ''outputs/processed-17-a.png'',
                 Unlink ''uploads/17-a.png'']\<rparr>,
      ErrorReply 500 ''Internal server error during image processing'')"
  by code_simp

lemma broken_run:
  "process_image_handler raw_env broken_world (Some staged_file) =
     (\<lparr>files = [(''uploads/17-a.png'', \<lparr>content = [1, 2, 3], birthtime = 17\<rparr>)],
       events = [LoadImage ''uploads/17-a.png'']\<rparr>,
      ErrorReply 500 ''Unsupported image type'')"
  by code_simp

lemma staged_run:
  "process_image_handler raw_env staged_world (Some staged_file) =
     (\<lparr>files = [(''outputs/processed-17-a.png'', \<lparr>content = [1, 1, 1, 255], birthtime = 17\<rparr>)],
       events = [LoadImage ''uploads/17-a.png'', WriteFile ''outputs/processed-17-a.png'',
                 Unlink ''uploads/17-a.png'']\<rparr>,
      ProcessedReply ''/outputs/processed-17-a.png'' ''processed-17-a.png'')"
  by code_simp


lemma listing_run:
  "get_images raw_env listing_world =
     ImagesReply [\<lparr>img_filename = ''a.PNG'', img_url = ''/outputs/a.PNG'', img_created = 3\<rparr>,
                  \<lparr>img_filename = ''sub.png'', img_url = ''/outputs/sub.png'', img_created = 1\<rparr>,
                  \<lparr>img_filename = ''.hidden.png'', img_url = ''/outputs/.hidden.png'', img_created = 7\<rparr>]"
  by code_simp

lemma dangling_run:
  "get_images dangling_env listing_world = ErrorReply 500 ''Error reading image directory''"
  by code_simp

lemma stale_run:
  "process_image_handler stale_env staged_world (Some staged_file) =
     (\<lparr>files = [(''outputs/processed-17-a.png'', \<lparr>content = [1, 1, 1, 255], birthtime = 17\<rparr>)],
       events = [LoadImage ''uploads/17-a.png'', WriteFile ''outputs/processed-17-a.png'',
                 Unlink ''uploads/17-a.png'']\<rparr>,
      ProcessedReply ''/outputs/processed-17-a.png'' ''processed-17-a.png'')"
  by code_simp

lemma stale_listing:
  "get_images stale_env
     \<lparr>files = [(''outputs/processed-17-a.png'', \<lparr>content = [1, 1, 1, 255], birthtime = 17\<rparr>)],
       events = [LoadImage ''uploads/17-a.png'', WriteFile ''outputs/processed-17-a.png'',
                 Unlink ''uploads/17-a.png'']\<rparr> =
     ErrorReply 500 ''Error reading image directory''"
  by code_simp

lemma download_runs:
  "get_download raw_env listing_world ''a.PNG'' = DownloadReply ''outputs/a.PNG'' [1] \<and>
   get_download raw_env listing_world ''.hidden.png'' = ErrorReply 500 ''Not Found'' \<and>
   get_download modern_env listing_world ''.hidden.png'' = ErrorReply 500 ''Not Found'' \<and>
   get_download raw_env listing_world ''sub.png'' = NotHandled \<and>
   get_download raw_env listing_world ''b.png'' = ErrorReply 404 ''File not found'' \<and>
   get_download unreadable_env listing_world ''a.PNG'' = ErrorReply 500 ''EACCES''"
  by code_simp

section \<open>Claims about the transform\<close>

text \<open>
  C1, as amended. For every pixel buffer and every pixel \<open>p\<close> that lies in it with all four
  bytes, after the grayscale transform the R, G and B bytes of the pixel are equal, their
  value is the average \<open>(R0 + G0 + B0) / 3\<close> of the pixel's original colour bytes rounded to
  the nearest integer, which is \<open>(R0 + G0 + B0 + 1) div 3\<close>, and the alpha byte is the
  original one. All three colour bytes are read before any is written.
\<close>

theorem grayscale_rounds_average:
  "4 * p + 3 < length (data B) \<Longrightarrow>
     data (grayscale B) ! (4 * p + 1) = data (grayscale B) ! (4 * p) \<and>
     data (grayscale B) ! (4 * p + 2) = data (grayscale B) ! (4 * p) \<and>
     unat (data (grayscale B) ! (4 * p)) =
       (unat (data B ! (4 * p)) + unat (data B ! (4 * p + 1)) + unat (data B ! (4 * p + 2)) + 1) div 3 \<and>
     \<bar>rat_of_nat (unat (data (grayscale B) ! (4 * p))) -
        rat_of_nat (unat (data B ! (4 * p)) + unat (data B ! (4 * p + 1)) + unat (data B ! (4 * p + 2))) / 3\<bar> < 1 / 2 \<and>
     data (grayscale B) ! (4 * p + 3) = data B ! (4 * p + 3)"
proof -
  assume inside: "4 * p + 3 < length (data B)"
  let ?d = "data B"
  let ?s = "unat (?d ! (4 * p)) + unat (?d ! (4 * p + 1)) + unat (?d ! (4 * p + 2))"
  have out: "data (grayscale B) = grayscale_loop 0 ?d" by (simp add: grayscale_def)
  have c0: "grayscale_loop 0 ?d ! (4 * p) = ToUint8Clamp (pixel_avg ?d (4 * p))"
    using grayscale_loop_nth [of "4 * p" ?d 0] gray_at_color [of 0 ?d p] inside by simp
  have c1: "grayscale_loop 0 ?d ! (4 * p + 1) = ToUint8Clamp (pixel_avg ?d (4 * p))"
    using grayscale_loop_nth [of "4 * p + 1" ?d 0] gray_at_color [of 1 ?d p] inside by simp
  have c2: "grayscale_loop 0 ?d ! (4 * p + 2) = ToUint8Clamp (pixel_avg ?d (4 * p))"
    using grayscale_loop_nth [of "4 * p + 2" ?d 0] gray_at_color [of 2 ?d p] inside by simp
  have c3: "grayscale_loop 0 ?d ! (4 * p + 3) = ?d ! (4 * p + 3)"
    using grayscale_loop_nth [of "4 * p + 3" ?d 0] gray_at_alpha [of ?d p] inside by simp
  have v: "ToUint8Clamp (pixel_avg ?d (4 * p)) = of_nat ((?s + 1) div 3)"
    using gray_value [of "4 * p" ?d] inside by simp
  have u: "unat (data (grayscale B) ! (4 * p)) = (?s + 1) div 3"
    unfolding out c0 v by (rule unat_gray)
  have near: "\<bar>rat_of_nat ((?s + 1) div 3) - rat_of_nat ?s / 3\<bar> < 1 / 2"
    by (rule nearest_third)
  show ?thesis
    unfolding u using near unfolding out c0 c1 c2 c3 by simp
qed

theorem grayscale_rounds_average_witness:
  "4 * 0 + 3 < length (data red_pixel) \<and>
   unat (data (grayscale red_pixel) ! (4 * 0)) = 85 \<and>
   data (grayscale red_pixel) ! (4 * 0 + 1) = data (grayscale red_pixel) ! (4 * 0) \<and>
   data (grayscale red_pixel) ! (4 * 0 + 2) = data (grayscale red_pixel) ! (4 * 0) \<and>
   data (grayscale red_pixel) ! (4 * 0 + 3) = 255"
  using grayscale_rounds_average [of 0 red_pixel] by (simp add: red_pixel_def)

text \<open>
  C1 as the specification states it, with the average rounded down, fails on a
  pixel whose colour bytes add up to 2: the bytes become 1, and \<open>2 div 3 = 0\<close>.
\<close>

theorem grayscale_floor_counterexample:
  "\<not> unat (data (grayscale dark_pixel) ! 0) =
      (unat (data dark_pixel ! 0) + unat (data dark_pixel ! 1) + unat (data dark_pixel ! 2)) div 3"
  by (simp add: dark_pixel_clamped) (simp add: dark_pixel_def)

text \<open>
  C3. For every pixel buffer, also one whose data does not end on a pixel boundary,
  applying the grayscale transform twice gives the same buffer as applying it once.
\<close>

theorem grayscale_idempotent: "grayscale (grayscale B) = grayscale B"
  by (simp add: grayscale_def grayscale_loop_idem)

text \<open>
  C9. The grayscale transform preserves the invariant of a pixel buffer: the width and
  the height are unchanged, the data still has \<open>width * height * 4\<close> bytes, and the
  byte at the alpha position of every pixel is unchanged, so the channel order stands.
\<close>

theorem grayscale_preserves_invariant:
  "pb_inv B \<Longrightarrow>
     pb_inv (grayscale B) \<and>
     width (grayscale B) = width B \<and>
     height (grayscale B) = height B \<and>
     length (data (grayscale B)) = width B * height B * 4 \<and>
     (\<forall>p < width B * height B. data (grayscale B) ! (4 * p + 3) = data B ! (4 * p + 3))"
proof -
  assume inv: "pb_inv B"
  have len: "length (data B) = width B * height B * 4"
    using inv by (simp add: pb_inv_def)
  have a: "pb_inv (grayscale B)"
    using inv by (simp add: pb_inv_def grayscale_def length_grayscale_loop)
  have b: "width (grayscale B) = width B" by (simp add: grayscale_def)
  have c: "height (grayscale B) = height B" by (simp add: grayscale_def)
  have d: "length (data (grayscale B)) = width B * height B * 4"
    using len by (simp add: grayscale_def length_grayscale_loop)
  have e: "\<forall>p < width B * height B. data (grayscale B) ! (4 * p + 3) = data B ! (4 * p + 3)"
  proof (intro allI impI)
    fix p assume "p < width B * height B"
    then have "4 * p + 3 < length (data B)" using len by linarith
    then have "grayscale_loop 0 (data B) ! (4 * p + 3) = gray_at (data B) 0 (4 * p + 3)"
      by (rule grayscale_loop_nth)
    then show "data (grayscale B) ! (4 * p + 3) = data B ! (4 * p + 3)"
      by (simp add: grayscale_def gray_at_alpha)
  qed
  from a b c d e show ?thesis by blast
qed

theorem grayscale_preserves_invariant_witness:
  "pb_inv red_pixel \<and> pb_inv (grayscale red_pixel) \<and>
   width (grayscale red_pixel) = 1 \<and> height (grayscale red_pixel) = 1 \<and>
   length (data (grayscale red_pixel)) = 4"
  using grayscale_preserves_invariant [of red_pixel] by (simp add: red_pixel_def pb_inv_def)

section \<open>Claims about the store and the routes\<close>

text \<open>
  C2, as amended. The name of an output is \<open>processed-\<close>, the time of the upload in
  milliseconds, a dash, the original file name up to its first dot, and \<open>.png\<close>. Two
  saves derive the same name exactly when their uploads carry the same millisecond and
  their original names agree up to the first dot; otherwise the names differ.
\<close>

theorem output_name_collision:
  "outputFilename (multer_filename t name) =
     ''processed-'' @ string_of_nat t @ ''-'' @ takeWhile (\<lambda>x. x \<noteq> CHR ''.'') name @ ''.png'' \<and>
   (outputFilename (multer_filename t1 name1) = outputFilename (multer_filename t2 name2)
     \<longleftrightarrow> t1 = t2 \<and> takeWhile (\<lambda>x. x \<noteq> CHR ''.'') name1 = takeWhile (\<lambda>x. x \<noteq> CHR ''.'') name2)"
proof
  show "outputFilename (multer_filename t name) =
     ''processed-'' @ string_of_nat t @ ''-'' @ takeWhile (\<lambda>x. x \<noteq> CHR ''.'') name @ ''.png''"
    unfolding outputFilename_stem stem_multer_filename by simp
next
  show "outputFilename (multer_filename t1 name1) = outputFilename (multer_filename t2 name2)
     \<longleftrightarrow> t1 = t2 \<and> takeWhile (\<lambda>x. x \<noteq> CHR ''.'') name1 = takeWhile (\<lambda>x. x \<noteq> CHR ''.'') name2"
    unfolding outputFilename_stem stem_multer_filename
    using dash_split [of t1 "takeWhile (\<lambda>x. x \<noteq> CHR ''.'') name1" t2 "takeWhile (\<lambda>x. x \<noteq> CHR ''.'') name2"]
    by auto
qed

text \<open>
  C2 as the specification states it fails: the route derives no second name. Two
  uploads of the same millisecond, \<open>a.b.png\<close> and \<open>a.c.png\<close>, both succeed under the
  name \<open>processed-17-a.png\<close>, and the second run replaces the entry of the first.
\<close>

theorem save_overwrites_counterexample:
  "filename staged_ab = multer_filename 17 ''a.b.png'' \<and>
   filename staged_ac = multer_filename 17 ''a.c.png'' \<and>
   snd (process_image_handler raw_env two_staged (Some staged_ab)) =
     ProcessedReply ''/outputs/processed-17-a.png'' ''processed-17-a.png'' \<and>
   map_of (files after_first) ''outputs/processed-17-a.png'' =
     Some \<lparr>content = [1, 1, 1, 255], birthtime = 17\<rparr> \<and>
   snd (process_image_handler raw_env after_first (Some staged_ac)) =
     ProcessedReply ''/outputs/processed-17-a.png'' ''processed-17-a.png'' \<and>
   files after_second =
     [(''outputs/processed-17-a.png'', \<lparr>content = [85, 85, 85, 255], birthtime = 17\<rparr>)]"
proof -
  have af: "after_first =
      \<lparr>files = [(''uploads/17-a.c.png'', \<lparr>content = [255, 0, 0, 255], birthtime = 17\<rparr>),
                (''outputs/processed-17-a.png'', \<lparr>content = [1, 1, 1, 255], birthtime = 17\<rparr>)],
       events = [LoadImage ''uploads/17-a.b.png'', WriteFile ''outputs/processed-17-a.png'',
                 Unlink ''uploads/17-a.b.png'']\<rparr>"
    by (simp only: after_first_def first_save fst_conv)
  have as: "files after_second =
      [(''outputs/processed-17-a.png'', \<lparr>content = [85, 85, 85, 255], birthtime = 17\<rparr>)]"
    by (simp only: after_second_def second_save fst_conv) simp
  have m: "map_of (files after_first) ''outputs/processed-17-a.png'' =
      Some \<lparr>content = [1, 1, 1, 255], birthtime = 17\<rparr>"
    unfolding af by simp
  show ?thesis
    by (simp only: first_save second_save snd_conv as m) (simp add: staged_ab_def staged_ac_def)
qed

text \<open>
  C4, as amended. A failed \<open>processImage\<close> leaves every file as it was, provided the
  write of the output does not break off after the output file was opened: so when the
  image cannot be loaded, decoded or encoded, and when the output file cannot be opened.
  A call of the processing route that answers with an error leaves every file as it was
  under the same proviso and when, in addition, the removal of the staged upload does
  not raise; this includes the request without file.
\<close>

theorem failed_process_keeps_store:
  "(processImage env w imagePath outputPath = (w1, Failure err) \<and>
      \<not> mid_write_fault env outputPath \<longrightarrow> files w1 = files w) \<and>
   (process_image_handler env w req = (w', ErrorReply st msg) \<and> no_late_fault env req
      \<longrightarrow> files w' = files w)"
  using processImage_clean_failure [of env w imagePath outputPath w1 err]
    handler_clean_failure [of env w req w' st msg]
  by blast

theorem failed_process_keeps_store_witness:
  "\<not> mid_write_fault raw_env (output_path staged_file) \<and>
   processImage raw_env broken_world (path staged_file) (output_path staged_file) =
     (fst (process_image_handler raw_env broken_world (Some staged_file)),
      Failure ''Unsupported image type'') \<and>
   no_late_fault raw_env (Some staged_file) \<and>
   snd (process_image_handler raw_env broken_world (Some staged_file)) =
     ErrorReply 500 ''Unsupported image type'' \<and>
   files (fst (process_image_handler raw_env broken_world (Some staged_file))) = files broken_world"
proof -
  have m: "\<not> mid_write_fault raw_env (output_path staged_file)" by code_simp
  have n: "no_late_fault raw_env (Some staged_file)" by code_simp
  have p: "processImage raw_env broken_world (path staged_file) (output_path staged_file) =
     (fst (process_image_handler raw_env broken_world (Some staged_file)),
      Failure ''Unsupported image type'')"
    unfolding broken_run fst_conv by code_simp
  have r: "process_image_handler raw_env broken_world (Some staged_file) =
      (fst (process_image_handler raw_env broken_world (Some staged_file)),
       ErrorReply 500 ''Unsupported image type'')"
    by (simp only: broken_run fst_conv)
  have "files (fst (process_image_handler raw_env broken_world (Some staged_file))) = files broken_world"
    using failed_process_keeps_store
      [of raw_env broken_world "path staged_file" "output_path staged_file"
          "fst (process_image_handler raw_env broken_world (Some staged_file))"
          "''Unsupported image type''" "Some staged_file"
          "fst (process_image_handler raw_env broken_world (Some staged_file))" 500
          "''Unsupported image type''"] r n
    by blast
  moreover have "snd (process_image_handler raw_env broken_world (Some staged_file)) =
     ErrorReply 500 ''Unsupported image type''"
    by (simp only: broken_run snd_conv)
  ultimately show ?thesis using m n p by (simp only: simp_thms)
qed

text \<open>
  C4 as the specification states it fails in the two cases the amended claim
  leaves out. When the write breaks off, the route answers 500 and the truncated output
  is an entry of the store; when the removal of the upload raises, the route answers 500
  and the complete output is an entry of the store.
\<close>

theorem failed_process_leaves_entry_counterexample:
  "snd (process_image_handler disk_full_env staged_world (Some staged_file)) = ErrorReply 500 ''ENOSPC'' \<and>
   \<not> in_store staged_world ''processed-17-a.png'' \<and>
   in_store (fst (process_image_handler disk_full_env staged_world (Some staged_file))) ''processed-17-a.png'' \<and>
   snd (process_image_handler locked_env staged_world (Some staged_file)) =
     ErrorReply 500 ''Internal server error during image processing'' \<and>
   in_store (fst (process_image_handler locked_env staged_world (Some staged_file))) ''processed-17-a.png''"
  by (simp only: disk_full_run locked_run fst_conv snd_conv) (simp add: in_store_def staged_world_def)




text \<open>
  C6, the code at the failing input. The upload \<open>clip.gifv\<close> has the extension
  \<open>.gifv\<close>, which is none of jpeg, jpg, png and gif; the filter accepts it, because the
  pattern of line 33 is searched anywhere in the extension, and the route goes on to
  decode the file and stores an output.
\<close>

theorem gifv_accepted:
  "path_extname (originalname gifv_upload) = ''.gifv'' \<and>
   fileFilter gifv_upload = Inr True \<and>
   post_process_image raw_env empty_world (Some gifv_upload) =
     (\<lparr>files = [(''outputs/processed-17-clip.png'', \<lparr>content = [1, 1, 1, 255], birthtime = 17\<rparr>)],
       events = [LoadImage ''uploads/17-clip.gifv'', WriteFile ''outputs/processed-17-clip.png'',
                 Unlink ''uploads/17-clip.gifv'']\<rparr>,
      ProcessedReply ''/outputs/processed-17-clip.png'' ''processed-17-clip.png'')"
proof -
  have e: "path_extname (originalname gifv_upload) = ''.gifv''" by code_simp
  show ?thesis using e gifv_filter gifv_run by (simp only: simp_thms)
qed

text \<open>
  C7, as amended. The extension and the MIME type are tested independently of each
  other: an upload whose extension is one of \<open>.jpeg\<close>, \<open>.jpg\<close>, \<open>.png\<close>, \<open>.gif\<close>
  (in any case) and whose MIME type is one of \<open>image/jpeg\<close>, \<open>image/png\<close>,
  \<open>image/gif\<close> is accepted, whether or not the two name the same type; an upload whose
  extension or whose MIME type contains none of the accepted type names is rejected
  before anything is staged or decoded, with the error of an unsupported format.
\<close>

theorem filter_checks_independently:
  "(toLowerCase (path_extname (originalname file)) \<in> {''.jpeg'', ''.jpg'', ''.png'', ''.gif''} \<and>
    mimetype file \<in> {''image/jpeg'', ''image/png'', ''image/gif''}
      \<longrightarrow> fileFilter file = Inr True) \<and>
   (\<not> names_accepted_type (toLowerCase (path_extname (originalname file))) \<or>
    \<not> names_accepted_type (mimetype file)
      \<longrightarrow> post_process_image env w (Some file) = (w, ErrorReply 500 ''Only image files are allowed!''))"
proof
  show "toLowerCase (path_extname (originalname file)) \<in> {''.jpeg'', ''.jpg'', ''.png'', ''.gif''} \<and>
    mimetype file \<in> {''image/jpeg'', ''image/png'', ''image/gif''} \<longrightarrow> fileFilter file = Inr True"
    by (auto simp: fileFilter_def Let_def allowedTypes_test_def)
next
  show "\<not> names_accepted_type (toLowerCase (path_extname (originalname file))) \<or>
    \<not> names_accepted_type (mimetype file)
      \<longrightarrow> post_process_image env w (Some file) = (w, ErrorReply 500 ''Only image files are allowed!'')"
  proof
    assume "\<not> names_accepted_type (toLowerCase (path_extname (originalname file))) \<or>
      \<not> names_accepted_type (mimetype file)"
    then have "fileFilter file \<noteq> Inr True" by (simp add: fileFilter_iff)
    then have "fileFilter file = Inl ''Only image files are allowed!''" by (rule fileFilter_reject)
    then show "post_process_image env w (Some file) = (w, ErrorReply 500 ''Only image files are allowed!'')"
      by (rule post_reject)
  qed
qed

theorem filter_checks_independently_witness:
  "toLowerCase (path_extname (originalname png_as_jpeg)) \<in> {''.jpeg'', ''.jpg'', ''.png'', ''.gif''} \<and>
   mimetype png_as_jpeg \<in> {''image/jpeg'', ''image/png'', ''image/gif''} \<and>
   fileFilter png_as_jpeg = Inr True \<and>
   \<not> names_accepted_type (mimetype (png_as_jpeg\<lparr>mimetype := ''text/plain''\<rparr>)) \<and>
   post_process_image raw_env empty_world (Some (png_as_jpeg\<lparr>mimetype := ''text/plain''\<rparr>)) =
     (empty_world, ErrorReply 500 ''Only image files are allowed!'')"
proof -
  have e: "toLowerCase (path_extname (originalname png_as_jpeg)) = ''.png''" by code_simp
  have m: "mimetype png_as_jpeg = ''image/jpeg''" by (simp add: png_as_jpeg_def)
  have t: "\<not> allowedTypes_test ''text/plain''" by code_simp
  then have n: "\<not> names_accepted_type (mimetype (png_as_jpeg\<lparr>mimetype := ''text/plain''\<rparr>))"
    by (simp add: allowedTypes_test_iff)
  show ?thesis
    using filter_checks_independently [of png_as_jpeg]
      filter_checks_independently [of "png_as_jpeg\<lparr>mimetype := ''text/plain''\<rparr>" raw_env empty_world]
      e m n by simp
qed

text \<open>
  C7 as the specification states it fails: an upload with the extension
  \<open>.png\<close> and the MIME type \<open>image/jpeg\<close> passes the filter and is decoded.
\<close>

theorem mismatch_accepted_counterexample:
  "toLowerCase (path_extname (originalname png_as_jpeg)) = ''.png'' \<and>
   mimetype png_as_jpeg = ''image/jpeg'' \<and>
   fileFilter png_as_jpeg = Inr True \<and>
   post_process_image raw_env empty_world (Some png_as_jpeg) =
     (\<lparr>files = [(''outputs/processed-17-a.png'', \<lparr>content = [1, 1, 1, 255], birthtime = 17\<rparr>)],
       events = [LoadImage ''uploads/17-a.png'', WriteFile ''outputs/processed-17-a.png'',
                 Unlink ''uploads/17-a.png'']\<rparr>,
      ProcessedReply ''/outputs/processed-17-a.png'' ''processed-17-a.png'')"
proof -
  have e: "toLowerCase (path_extname (originalname png_as_jpeg)) = ''.png''" by code_simp
  have m: "mimetype png_as_jpeg = ''image/jpeg''" by (simp add: png_as_jpeg_def)
  show ?thesis using e m png_as_jpeg_filter png_as_jpeg_run by (simp only: simp_thms)
qed

text \<open>
  C8, as amended. When reading the directory does not raise and no \<open>fs.statSync\<close> of
  a listed entry raises, the listing route answers with exactly the names of the entries
  of \<open>outputs\<close>, files and sub-directories alike, that end in an accepted raster
  extension, each name once, with the URL \<open>/outputs/\<close>name and the birth time of
  the entry. When reading the directory raises, or the stat of one of these entries
  raises, it answers 500 with the message \<open>Error reading image directory\<close>.
\<close>

theorem list_fidelity:
  "(readdir_fault env outputDir = None \<and>
    (\<forall>n. store_entry env w n \<and> has_raster_extension n \<longrightarrow> stat_fault env (''outputs/'' @ n) = None)
      \<longrightarrow> (\<exists>imgs. get_images env w = ImagesReply imgs \<and>
             set (map img_filename imgs) = {n. store_entry env w n \<and> has_raster_extension n} \<and>
             distinct (map img_filename imgs) \<and>
             (\<forall>i \<in> set imgs. img_url i = ''/outputs/'' @ img_filename i \<and>
                img_created i = created_of env w (img_filename i)))) \<and>
   (readdir_fault env outputDir \<noteq> None \<or>
    (\<exists>n. store_entry env w n \<and> has_raster_extension n \<and> stat_fault env (''outputs/'' @ n) \<noteq> None)
      \<longrightarrow> get_images env w = ErrorReply 500 ''Error reading image directory'')"
proof -
  define names where "names = remdups (concat (map (entry_name outputDir) (all_paths env w)))"
  define shown where "shown = filter raster_test names"
  have names: "set names = {n. store_entry env w n}"
    unfolding names_def outputDir_def by (rule readdir_entries)
  have shown: "set shown = {n. store_entry env w n \<and> has_raster_extension n}"
    unfolding shown_def using names by (auto simp: raster_test_iff)
  have dist: "distinct shown" by (simp add: shown_def names_def)
  have plain: "\<forall>n \<in> set shown. plain_name n"
    using shown raster_entry_plain [of env w] by (auto simp: raster_test_iff)
  have rd: "readdir_fault env outputDir = None \<Longrightarrow> readdirSync env w outputDir = Inr names"
    by (simp add: readdirSync_def names_def)
  have ok: "\<exists>imgs. get_images env w = ImagesReply imgs \<and>
             set (map img_filename imgs) = {n. store_entry env w n \<and> has_raster_extension n} \<and>
             distinct (map img_filename imgs) \<and>
             (\<forall>i \<in> set imgs. img_url i = ''/outputs/'' @ img_filename i \<and>
                img_created i = created_of env w (img_filename i))"
    if r: "readdir_fault env outputDir = None"
      and s: "\<forall>n. store_entry env w n \<and> has_raster_extension n \<longrightarrow> stat_fault env (''outputs/'' @ n) = None"
  proof -
    have each: "\<forall>n \<in> set shown. plain_name n \<and> store_entry env w n \<and> stat_fault env (''outputs/'' @ n) = None"
      using plain shown s by auto
    have infos: "image_infos env w shown = Some (map (info_of env w) shown)"
      using each by (rule image_infos_present)
    have reply: "get_images env w = ImagesReply (map (info_of env w) shown)"
      by (simp add: get_images_def rd [OF r] infos shown_def [symmetric])
    have a: "set (map img_filename (map (info_of env w) shown)) = {n. store_entry env w n \<and> has_raster_extension n}"
      using shown by (simp only: info_filenames)
    have b: "distinct (map img_filename (map (info_of env w) shown))"
      using dist by (simp only: info_filenames)
    have c: "\<forall>i \<in> set (map (info_of env w) shown). img_url i = ''/outputs/'' @ img_filename i \<and>
                img_created i = created_of env w (img_filename i)"
      by (simp add: info_of_def)
    show ?thesis using reply a b c by blast
  qed
  have bad: "get_images env w = ErrorReply 500 ''Error reading image directory''"
    if f: "readdir_fault env outputDir \<noteq> None \<or>
      (\<exists>n. store_entry env w n \<and> has_raster_extension n \<and> stat_fault env (''outputs/'' @ n) \<noteq> None)"
  proof (cases "readdir_fault env outputDir")
    case (Some e)
    then show ?thesis by (simp add: get_images_def readdirSync_def)
  next
    case None
    then obtain n where n: "store_entry env w n" "has_raster_extension n"
      "stat_fault env (''outputs/'' @ n) \<noteq> None" using f by auto
    then have "n \<in> set shown" using shown by simp
    moreover have "plain_name n" using plain \<open>n \<in> set shown\<close> by simp
    ultimately have "image_infos env w shown = None" using n(3) by (rule image_infos_raises)
    then show ?thesis
      by (simp add: get_images_def rd [OF None] shown_def [symmetric])
  qed
  show ?thesis using ok bad by blast
qed

theorem list_fidelity_witness:
  "readdir_fault raw_env outputDir = None \<and>
   get_images raw_env listing_world =
     ImagesReply [\<lparr>img_filename = ''a.PNG'', img_url = ''/outputs/a.PNG'', img_created = 3\<rparr>,
                  \<lparr>img_filename = ''sub.png'', img_url = ''/outputs/sub.png'', img_created = 1\<rparr>,
                  \<lparr>img_filename = ''.hidden.png'', img_url = ''/outputs/.hidden.png'', img_created = 7\<rparr>] \<and>
   {n. store_entry raw_env listing_world n \<and> has_raster_extension n} =
     {''a.PNG'', ''sub.png'', ''.hidden.png''} \<and>
   store_entry dangling_env listing_world ''a.PNG'' \<and> has_raster_extension ''a.PNG'' \<and>
   stat_fault dangling_env (''outputs/'' @ ''a.PNG'') \<noteq> None \<and>
   get_images dangling_env listing_world = ErrorReply 500 ''Error reading image directory''"
proof -
  have ok: "readdir_fault raw_env outputDir = None" by (simp add: raw_env_def)
  have nf: "\<forall>n. store_entry raw_env listing_world n \<and> has_raster_extension n \<longrightarrow>
      stat_fault raw_env (''outputs/'' @ n) = None"
    by (simp add: raw_env_def)
  obtain imgs where i: "get_images raw_env listing_world = ImagesReply imgs"
    and s: "set (map img_filename imgs) = {n. store_entry raw_env listing_world n \<and> has_raster_extension n}"
    using list_fidelity [of raw_env listing_world] ok nf by blast
  have "imgs = [\<lparr>img_filename = ''a.PNG'', img_url = ''/outputs/a.PNG'', img_created = 3\<rparr>,
                  \<lparr>img_filename = ''sub.png'', img_url = ''/outputs/sub.png'', img_created = 1\<rparr>,
                  \<lparr>img_filename = ''.hidden.png'', img_url = ''/outputs/.hidden.png'', img_created = 7\<rparr>]"
    using i by (simp only: listing_run reply.inject)
  then have set_eq: "{n. store_entry raw_env listing_world n \<and> has_raster_extension n} =
     {''a.PNG'', ''sub.png'', ''.hidden.png''}"
    using s by simp
  have e: "store_entry dangling_env listing_world ''a.PNG''" by code_simp
  have "raster_test ''a.PNG''" by code_simp
  then have r: "has_raster_extension ''a.PNG''" by (simp only: raster_test_iff)
  have f: "stat_fault dangling_env (''outputs/'' @ ''a.PNG'') \<noteq> None" by (simp add: dangling_env_def)
  have "get_images dangling_env listing_world = ErrorReply 500 ''Error reading image directory''"
    using list_fidelity [of dangling_env listing_world] e r f by blast
  then show ?thesis using ok listing_run set_eq e r f by (simp only: simp_thms)
qed

text \<open>
  C8 as the specification states it fails: the listing depends on more than the read
  of the directory. After a successful save the directory can be read and holds the
  output \<open>processed-17-a.png\<close>, yet the route answers 500 and lists no name, because
  the \<open>fs.statSync\<close> of that entry raises inside the same \<open>try\<close>.
\<close>

theorem listing_fails_counterexample:
  "snd (process_image_handler stale_env staged_world (Some staged_file)) =
     ProcessedReply ''/outputs/processed-17-a.png'' ''processed-17-a.png'' \<and>
   readdir_fault stale_env outputDir = None \<and>
   in_store (fst (process_image_handler stale_env staged_world (Some staged_file)))
     ''processed-17-a.png'' \<and>
   has_raster_extension ''processed-17-a.png'' \<and>
   get_images stale_env (fst (process_image_handler stale_env staged_world (Some staged_file))) =
     ErrorReply 500 ''Error reading image directory''"
proof -
  have a: "readdir_fault stale_env outputDir = None" by (simp add: stale_env_def raw_env_def)
  have "raster_test ''processed-17-a.png''" by code_simp
  then have r: "has_raster_extension ''processed-17-a.png''" by (simp only: raster_test_iff)
  show ?thesis
    unfolding stale_run fst_conv snd_conv stale_listing
    using a r by (simp add: in_store_def)
qed

text \<open>
  C10, as amended. For a call of the processing route on a staged upload that exists and
  is not itself the output path: the staged file is gone afterwards if and only if the
  route answers with the success body, which it does exactly when \<open>processImage\<close>
  succeeds and the removal of the staged file does not raise; a success is answered after
  the calls load, write and unlink, in this order; and with every error answer the
  staged file is left as it was.
\<close>

theorem staged_upload_removed_iff_success:
  "process_image_handler env w (Some file) = (w', r) \<Longrightarrow>
   map_of (files w) (path file) \<noteq> None \<Longrightarrow> path file \<noteq> output_path file \<Longrightarrow>
     (map_of (files w') (path file) = None \<longleftrightarrow> is_success r) \<and>
     (is_success r \<longleftrightarrow>
        (\<exists>m. snd (processImage env w (path file) (output_path file)) = Success m) \<and>
        unlink_fault env (path file) = None) \<and>
     (is_success r \<longrightarrow>
        events w' = events w @ [LoadImage (path file), WriteFile (output_path file), Unlink (path file)]) \<and>
     (\<not> is_success r \<longrightarrow> map_of (files w') (path file) = map_of (files w) (path file))"
proof -
  assume run: "process_image_handler env w (Some file) = (w', r)"
  assume ex: "map_of (files w) (path file) \<noteq> None"
  assume ne: "path file \<noteq> output_path file"
  obtain w1 res where p: "processImage env w (path file) (output_path file) = (w1, res)"
    by (cases "processImage env w (path file) (output_path file)")
  have fr: "map_of (files w1) (path file) = map_of (files w) (path file)"
    using processImage_frame [OF p ne] .
  show ?thesis
  proof (cases res)
    case (Failure e)
    then have "w' = w1" "r = ErrorReply 500 e" using run p by (auto simp: handler_unfold)
    then show ?thesis using fr ex p Failure by (simp add: is_success_def)
  next
    case (Success m)
    obtain w2 ro where u: "unlinkSync env w1 (path file) = (w2, ro)"
      by (cases "unlinkSync env w1 (path file)")
    have ev1: "events w1 = events w @ [LoadImage (path file), WriteFile (output_path file)]"
      using processImage_success [of env w _ _ w1 m] p Success by simp
    have pm: "\<exists>m. snd (processImage env w (path file) (output_path file)) = Success m"
      using p Success by simp
    note uc = unlinkSync_cases [OF u]
    show ?thesis
    proof (cases ro)
      case None
      then have "w' = w2" "is_success r" using run p Success u
        by (auto simp: handler_unfold is_success_def)
      then show ?thesis using uc None ev1 pm by simp
    next
      case (Some e)
      then have wr: "w' = w2" "\<not> is_success r" using run p Success u
        by (auto simp: handler_unfold is_success_def)
      have "unlink_fault env (path file) \<noteq> None \<or> map_of (files w1) (path file) = None"
        using unlinkSync_raises [of env w1 _ w2 e] u Some by simp
      then have "unlink_fault env (path file) \<noteq> None" using fr ex by simp
      then show ?thesis using wr uc Some fr ex by simp
    qed
  qed
qed

theorem staged_upload_removed_iff_success_witness:
  "map_of (files staged_world) (path staged_file) \<noteq> None \<and>
   path staged_file \<noteq> output_path staged_file \<and>
   is_success (snd (process_image_handler raw_env staged_world (Some staged_file))) \<and>
   map_of (files (fst (process_image_handler raw_env staged_world (Some staged_file)))) (path staged_file) = None \<and>
   \<not> is_success (snd (process_image_handler raw_env broken_world (Some staged_file))) \<and>
   map_of (files (fst (process_image_handler raw_env broken_world (Some staged_file)))) (path staged_file)
     = map_of (files broken_world) (path staged_file)"
proof -
  have e: "map_of (files staged_world) (path staged_file) \<noteq> None"
    by (simp add: staged_world_def staged_file_def)
  have e': "map_of (files broken_world) (path staged_file) \<noteq> None"
    by (simp add: broken_world_def staged_file_def)
  have o: "output_path staged_file = ''outputs/processed-17-a.png''" by code_simp
  have d: "path staged_file \<noteq> output_path staged_file" unfolding o by (simp add: staged_file_def)
  have s: "is_success (snd (process_image_handler raw_env staged_world (Some staged_file)))"
    by (simp only: staged_run snd_conv) (simp add: is_success_def)
  have b: "\<not> is_success (snd (process_image_handler raw_env broken_world (Some staged_file)))"
    by (simp only: broken_run snd_conv) (simp add: is_success_def)
  have r1: "process_image_handler raw_env staged_world (Some staged_file) =
      (fst (process_image_handler raw_env staged_world (Some staged_file)),
       snd (process_image_handler raw_env staged_world (Some staged_file)))" by simp
  have r2: "process_image_handler raw_env broken_world (Some staged_file) =
      (fst (process_image_handler raw_env broken_world (Some staged_file)),
       snd (process_image_handler raw_env broken_world (Some staged_file)))" by simp
  show ?thesis
    using staged_upload_removed_iff_success [OF r1 e d]
      staged_upload_removed_iff_success [OF r2 e' d] e d s b by blast
qed

text \<open>
  C10 as the specification states it, with the removal tied to the success of the
  pipeline alone, fails when the removal raises: \<open>processImage\<close> succeeds, the route
  answers 500, and the staged file is still there.
\<close>

theorem staged_upload_kept_counterexample:
  "snd (processImage locked_env staged_world (path staged_file) (output_path staged_file)) =
     Success ''Image processed successfully'' \<and>
   snd (process_image_handler locked_env staged_world (Some staged_file)) =
     ErrorReply 500 ''Internal server error during image processing'' \<and>
   map_of (files (fst (process_image_handler locked_env staged_world (Some staged_file)))) (path staged_file) =
     Some \<lparr>content = [0, 0, 2, 255], birthtime = 17\<rparr>"
proof -
  have p: "snd (processImage locked_env staged_world (path staged_file) (output_path staged_file)) =
     Success ''Image processed successfully''"
    by code_simp
  show ?thesis
    unfolding p by (simp only: locked_run fst_conv snd_conv) (simp add: staged_file_def)
qed

end
